theory Spec2Isabelle
  imports Complex_Main
begin

section \<open>Python values: failures, ranges, indexing, loops\<close>

text \<open>
  The exceptions the modelled functions can raise. A function that can raise returns
  \<open>py_error + 'a\<close>, with \<open>Inl\<close> for the exception.
\<close>

datatype py_error = ValueError | IndexError | KeyError

definition py_bind :: "py_error + 'a \<Rightarrow> ('a \<Rightarrow> py_error + 'b) \<Rightarrow> py_error + 'b" where
  "py_bind m f = (case m of Inl e \<Rightarrow> Inl e | Inr a \<Rightarrow> f a)"

text \<open>\<open>range(n)\<close> for a Python int: empty when \<open>n \<le> 0\<close>.\<close>

definition py_range :: "int \<Rightarrow> int list" where
  "py_range n = [0..n - 1]"

text \<open>\<open>xs[i]\<close>: a negative index counts from the end, out of range raises IndexError.\<close>

definition py_index :: "'a list \<Rightarrow> int \<Rightarrow> py_error + 'a" where
  "py_index xs i =
     (if 0 \<le> i \<and> i < int (length xs) then Inr (xs ! nat i)
      else if i < 0 \<and> - int (length xs) \<le> i then Inr (xs ! nat (int (length xs) + i))
      else Inl IndexError)"

text \<open>
  A \<open>for\<close> loop whose body updates a state and may raise: the first exception ends
  the loop and is the result.
\<close>

fun py_for :: "'a list \<Rightarrow> ('a \<Rightarrow> 's \<Rightarrow> py_error + 's) \<Rightarrow> 's \<Rightarrow> py_error + 's" where
  "py_for [] body s = Inr s"
| "py_for (x # xs) body s = py_bind (body x s) (py_for xs body)"

section \<open>Seating layout (src/utils/seat\_layout.py)\<close>

type_synonym seat = "int \<times> int"

text \<open>
  \<open>generate_seats\<close>: the outer loop reads \<open>rows_per_col[c]\<close> for every column index
  of \<open>range(n_cols)\<close>, the inner loop appends \<open>(c, r)\<close> for \<open>r\<close> in
  \<open>range(rows_per_col[c])\<close>.
\<close>

definition generate_seats :: "int \<Rightarrow> int list \<Rightarrow> py_error + seat list" where
  "generate_seats n_cols rows_per_col =
     py_for (py_range n_cols)
       (\<lambda>c seats. py_bind (py_index rows_per_col c)
          (\<lambda>k. py_for (py_range k) (\<lambda>r seats. Inr (seats @ [(c, r)])) seats))
       []"

text \<open>
  \<open>generate_adjacent_edges\<close>. The nested function \<open>has_aisle_between\<close> closes over
  the aisle list; here the list is its first argument.
\<close>

type_synonym edge = "seat \<times> seat"

definition has_aisle_between :: "(int \<times> int) list \<Rightarrow> int \<Rightarrow> int \<Rightarrow> bool" where
  "has_aisle_between aisles col1 col2 =
     list_ex (\<lambda>(left_col, right_col).
        (col1 = left_col \<and> col2 = right_col) \<or> (col1 = right_col \<and> col2 = left_col)) aisles"

text \<open>
  The body of the inner loop at the seat \<open>curr = (c, r)\<close>. The conditions are the
  source's, in its order; \<open>and\<close> is short-circuit, so \<open>rows_per_col[c+1]\<close> is read
  only after the tests to its left have passed.
\<close>

definition edges_at ::
  "int \<Rightarrow> int list \<Rightarrow> bool \<Rightarrow> (int \<times> int) list \<Rightarrow> int \<Rightarrow> int \<Rightarrow> edge list \<Rightarrow> py_error + edge list" where
  "edges_at n_cols rows_per_col include_diag aisles c r edges =
     (let curr = (c, r) in
      py_bind (if c + 1 < n_cols
               then py_bind (py_index rows_per_col (c + 1))
                      (\<lambda>k. Inr (r < k \<and> \<not> has_aisle_between aisles c (c + 1)))
               else Inr False)
        (\<lambda>right.
      let edges = (if right then edges @ [(curr, (c + 1, r)), ((c + 1, r), curr)] else edges) in
      py_bind (py_bind (py_index rows_per_col c) (\<lambda>k. Inr (r + 1 < k)))
        (\<lambda>up.
      let edges = (if up then edges @ [(curr, (c, r + 1)), ((c, r + 1), curr)] else edges) in
      if include_diag then
        py_bind (if c + 1 < n_cols
                 then py_bind (py_index rows_per_col (c + 1))
                        (\<lambda>k. Inr (r + 1 < k \<and> \<not> has_aisle_between aisles c (c + 1)))
                 else Inr False)
          (\<lambda>up_right.
        let edges = (if up_right then edges @ [(curr, (c + 1, r + 1)), ((c + 1, r + 1), curr)]
                     else edges) in
        py_bind (if c + 1 < n_cols \<and> r - 1 \<ge> 0
                 then py_bind (py_index rows_per_col (c + 1))
                        (\<lambda>k. Inr (r - 1 < k \<and> \<not> has_aisle_between aisles c (c + 1)))
                 else Inr False)
          (\<lambda>down_right.
        Inr (if down_right then edges @ [(curr, (c + 1, r - 1)), ((c + 1, r - 1), curr)]
             else edges)))
      else Inr edges)))"

text \<open>\<open>aisles\<close> defaults to \<open>None\<close>, which the function replaces by the empty list.\<close>

definition generate_adjacent_edges ::
  "int \<Rightarrow> int list \<Rightarrow> bool \<Rightarrow> (int \<times> int) list option \<Rightarrow> py_error + edge list" where
  "generate_adjacent_edges n_cols rows_per_col include_diag aisles_arg =
     (let aisles = (case aisles_arg of None \<Rightarrow> [] | Some a \<Rightarrow> a) in
      py_for (py_range n_cols)
        (\<lambda>c edges. py_bind (py_index rows_per_col c)
           (\<lambda>k. py_for (py_range k) (edges_at n_cols rows_per_col include_diag aisles c) edges))
        [])"

text \<open>
  \<open>validate_layout\<close> returns a flag and a message. The messages are Chinese texts
  with the offending numbers formatted in; each is a constructor here, in the order of
  the source's four checks, and \<open>Empty_message\<close> is the empty string of the valid case.
\<close>

datatype layout_message =
    Empty_message
  | Columns_must_be_positive
  | Rows_length_mismatch nat int
  | Rows_must_be_positive
  | Fewer_seats_than_people int int

definition validate_layout :: "int \<Rightarrow> int list \<Rightarrow> int \<Rightarrow> bool \<times> layout_message" where
  "validate_layout n_cols rows_per_col num_people =
     (if n_cols \<le> 0 then (False, Columns_must_be_positive)
      else if int (length rows_per_col) \<noteq> n_cols
        then (False, Rows_length_mismatch (length rows_per_col) n_cols)
      else if list_ex (\<lambda>r. r \<le> 0) rows_per_col then (False, Rows_must_be_positive)
      else (let total_seats = sum_list rows_per_col in
            if total_seats < num_people
            then (False, Fewer_seats_than_people total_seats num_people)
            else (True, Empty_message)))"

subsection \<open>Vocabulary for stating the layout claims\<close>

text \<open>
  A seat \<open>(c, r)\<close> exists in the layout when \<open>c\<close> is one of the \<open>n_cols\<close> columns
  and \<open>r\<close> one of the rows of that column. An aisle is declared between two columns
  when the pair is in the aisle list in either order.
\<close>

definition seat_exists :: "int \<Rightarrow> int list \<Rightarrow> seat \<Rightarrow> bool" where
  "seat_exists n_cols rows_per_col seat =
     (case seat of (c, r) \<Rightarrow> 0 \<le> c \<and> c < n_cols \<and> 0 \<le> r \<and> r < rows_per_col ! nat c)"

definition aisle_declared :: "(int \<times> int) list \<Rightarrow> int \<Rightarrow> int \<Rightarrow> bool" where
  "aisle_declared aisles c1 c2 = ((c1, c2) \<in> set aisles \<or> (c2, c1) \<in> set aisles)"

text \<open>
  The edges the loop body appends at the seat \<open>(c, r)\<close> when every read of
  \<open>rows_per_col\<close> is in range.
\<close>

definition edges_from ::
  "int \<Rightarrow> int list \<Rightarrow> bool \<Rightarrow> (int \<times> int) list \<Rightarrow> int \<Rightarrow> int \<Rightarrow> edge list" where
  "edges_from n_cols rows_per_col include_diag aisles c r =
     (if c + 1 < n_cols \<and> r < rows_per_col ! nat (c + 1) \<and> \<not> has_aisle_between aisles c (c + 1)
      then [((c, r), (c + 1, r)), ((c + 1, r), (c, r))] else [])
     @ (if r + 1 < rows_per_col ! nat c
        then [((c, r), (c, r + 1)), ((c, r + 1), (c, r))] else [])
     @ (if include_diag \<and> c + 1 < n_cols \<and> r + 1 < rows_per_col ! nat (c + 1)
           \<and> \<not> has_aisle_between aisles c (c + 1)
        then [((c, r), (c + 1, r + 1)), ((c + 1, r + 1), (c, r))] else [])
     @ (if include_diag \<and> c + 1 < n_cols \<and> r - 1 \<ge> 0 \<and> r - 1 < rows_per_col ! nat (c + 1)
           \<and> \<not> has_aisle_between aisles c (c + 1)
        then [((c, r), (c + 1, r - 1)), ((c + 1, r - 1), (c, r))] else [])"

text \<open>
  \<open>forward_neighbour A B\<close>: both seats exist and \<open>B\<close> is the neighbour of \<open>A\<close> in the
  next column on the same row, in the same column one row up, or (with the diagonal flag)
  in the next column one row up or down; the next-column cases need no aisle between the
  two columns.
\<close>

definition forward_neighbour ::
  "int \<Rightarrow> int list \<Rightarrow> bool \<Rightarrow> (int \<times> int) list \<Rightarrow> seat \<Rightarrow> seat \<Rightarrow> bool" where
  "forward_neighbour n_cols rows_per_col include_diag aisles A B =
     (case (A, B) of ((c, r), (c', r')) \<Rightarrow>
        seat_exists n_cols rows_per_col (c, r) \<and> seat_exists n_cols rows_per_col (c', r') \<and>
        ((c' = c + 1 \<and> r' = r \<and> \<not> aisle_declared aisles c c') \<or>
         (c' = c \<and> r' = r + 1) \<or>
         (include_diag \<and> c' = c + 1 \<and> (r' = r + 1 \<or> r' = r - 1)
            \<and> \<not> aisle_declared aisles c c')))"

section \<open>Image export (src/utils/exporter.py)\<close>

text \<open>
  \<open>seat_positions = {idx: (c, r) for idx, (c, r) in enumerate(seats)}\<close>, a dictionary
  from seat index to coordinates; \<open>assignment\<close> is a dictionary from person to seat
  index.
\<close>

definition seat_positions :: "seat list \<Rightarrow> (int \<rightharpoonup> seat)" where
  "seat_positions seats = map_of (zip (map int [0..<length seats]) seats)"

text \<open>
  \<open>are_seats_adjacent\<close> is a nested function of \<open>export_assignment_to_image\<close>, with
  an identical copy in \<open>_create_split_visualization\<close>; both close over \<open>assignment\<close>
  and \<open>seat_positions\<close>.
\<close>

definition are_seats_adjacent ::
  "(string \<rightharpoonup> int) \<Rightarrow> seat list \<Rightarrow> string \<Rightarrow> string \<Rightarrow> bool" where
  "are_seats_adjacent assignment seats person1 person2 =
     (let seat1_idx = assignment person1; seat2_idx = assignment person2 in
      if seat1_idx = None \<or> seat2_idx = None then False
      else if the seat1_idx \<notin> dom (seat_positions seats)
              \<or> the seat2_idx \<notin> dom (seat_positions seats) then False
      else (case (the (seat_positions seats (the seat1_idx)),
                  the (seat_positions seats (the seat2_idx))) of
              ((c1, r1), (c2, r2)) \<Rightarrow>
                (let dc = \<bar>c1 - c2\<bar>; dr = \<bar>r1 - r2\<bar>
                 in (dc \<le> 1 \<and> dr \<le> 1) \<and> (dc + dr > 0))))"

definition are_seats_adjacent_split ::
  "(string \<rightharpoonup> int) \<Rightarrow> seat list \<Rightarrow> string \<Rightarrow> string \<Rightarrow> bool" where
  "are_seats_adjacent_split assignment seats person1 person2 =
     (let seat1_idx = assignment person1; seat2_idx = assignment person2 in
      if seat1_idx = None \<or> seat2_idx = None then False
      else if the seat1_idx \<notin> dom (seat_positions seats)
              \<or> the seat2_idx \<notin> dom (seat_positions seats) then False
      else (case (the (seat_positions seats (the seat1_idx)),
                  the (seat_positions seats (the seat2_idx))) of
              ((c1, r1), (c2, r2)) \<Rightarrow>
                (let dc = \<bar>c1 - c2\<bar>; dr = \<bar>r1 - r2\<bar>
                 in (dc \<le> 1 \<and> dr \<le> 1) \<and> (dc + dr > 0))))"

section \<open>Data ingestion (src/utils/data\_processor.py)\<close>

subsection \<open>Cell ranges\<close>

text \<open>\<open>s.split(sep)\<close> for a separator of one character: one part more than separators.\<close>

fun py_split :: "char \<Rightarrow> string \<Rightarrow> string list" where
  "py_split sep [] = [[]]"
| "py_split sep (c # cs) =
     (if c = sep then [] # py_split sep cs
      else (case py_split sep cs of [] \<Rightarrow> [[c]] | part # parts \<Rightarrow> (c # part) # parts))"

text \<open>
  The two loops over the characters of a cell reference: a character for which
  \<open>isalpha\<close> holds is appended to the column text, any other to the row text.
\<close>

definition split_cell :: "(char \<Rightarrow> bool) \<Rightarrow> string \<Rightarrow> string \<times> string" where
  "split_cell isalpha cell =
     fold (\<lambda>c (col, row). if isalpha c then (col @ [c], row) else (col, row @ [c])) cell ([], [])"

text \<open>
  \<open>parse_cell_range\<close>. The functions it calls from outside the repository are
  parameters: \<open>isalpha\<close> (\<open>str.isalpha\<close> on one character), \<open>column_index\<close>
  (\<open>openpyxl.utils.column_index_from_string\<close>) and \<open>to_int\<close> (the builtin \<open>int\<close> on a
  string); the last two may raise. \<open>parse_cell_range_try\<close> is the body of the
  \<open>try\<close> block: unpacking \<open>start, end = range_spec.split(":")\<close> raises ValueError
  unless there are exactly two parts. The \<open>except Exception\<close> clause turns every
  exception of the body into the all-absent tuple, so the function returns a tuple.
\<close>

type_synonym cell_range = "int option \<times> int option \<times> int option \<times> int option"

definition parse_cell_range_try ::
  "(char \<Rightarrow> bool) \<Rightarrow> (string \<Rightarrow> py_error + int) \<Rightarrow> (string \<Rightarrow> py_error + int)
     \<Rightarrow> string \<Rightarrow> py_error + cell_range" where
  "parse_cell_range_try isalpha column_index to_int range_spec =
     (case py_split CHR '':'' range_spec of
        [start, end] \<Rightarrow>
          (case (split_cell isalpha start, split_cell isalpha end) of
             ((start_col, start_row), (end_col, end_row)) \<Rightarrow>
               py_bind (column_index start_col) (\<lambda>start_col_no.
               py_bind (column_index end_col) (\<lambda>end_col_no.
               py_bind (if start_row \<noteq> [] then py_bind (to_int start_row) (\<lambda>n. Inr (n - 1))
                        else Inr 0) (\<lambda>start_row_idx.
               py_bind (if end_row \<noteq> [] then py_bind (to_int end_row) (\<lambda>n. Inr (Some (n - 1)))
                        else Inr None) (\<lambda>end_row_idx.
               Inr (Some (start_col_no - 1), Some start_row_idx,
                    Some (end_col_no - 1), end_row_idx))))))
      | _ \<Rightarrow> Inl ValueError)"

definition parse_cell_range ::
  "(char \<Rightarrow> bool) \<Rightarrow> (string \<Rightarrow> py_error + int) \<Rightarrow> (string \<Rightarrow> py_error + int)
     \<Rightarrow> string \<Rightarrow> cell_range" where
  "parse_cell_range isalpha column_index to_int range_spec =
     (if range_spec = [] \<or> CHR '':'' \<notin> set range_spec then (None, None, None, None)
      else (case parse_cell_range_try isalpha column_index to_int range_spec of
              Inl e \<Rightarrow> (None, None, None, None)
            | Inr result \<Rightarrow> result))"

text \<open>
  The library functions on ASCII text, for evaluating examples. \<open>ascii_isalpha\<close> holds
  for the letters A to Z and a to z.
\<close>

definition ascii_isalpha :: "char \<Rightarrow> bool" where
  "ascii_isalpha c = (let n = (of_char c :: nat) in (65 \<le> n \<and> n \<le> 90) \<or> (97 \<le> n \<and> n \<le> 122))"

definition ascii_upper :: "char \<Rightarrow> char" where
  "ascii_upper c = (let n = (of_char c :: nat) in if 97 \<le> n \<and> n \<le> 122 then char_of (n - 32) else c)"

text \<open>
  Modelled from the spec: \<open>column_index_from_string\<close> belongs to the spreadsheet
  library, which is not part of the repository; the spec says that column letters are
  converted by the standard spreadsheet rules. The letters are read without regard to
  case as a bijective base-26 numeral, A being 1; the library knows the columns A to ZZZ
  and raises ValueError for any other text.
\<close>

definition column_index_from_string :: "string \<Rightarrow> py_error + int" where
  "column_index_from_string str_col =
     (let u = map ascii_upper str_col in
      if 1 \<le> length u \<and> length u \<le> 3 \<and> list_all (\<lambda>c. 65 \<le> (of_char c :: nat) \<and> (of_char c :: nat) \<le> 90) u
      then Inr (foldl (\<lambda>acc c. acc * 26 + (int (of_char c) - 64)) 0 u)
      else Inl ValueError)"

text \<open>
  The builtin \<open>int\<close> on a string whose characters are code points below 256: blanks
  around an optional sign and decimal digits, which single underscores may separate;
  anything else raises ValueError. The blanks that \<open>int\<close> skips are the ASCII
  characters 9 to 13 and 32 and, beyond ASCII, 133 and 160; the separators 28 to 31, which
  \<open>str.strip\<close> removes, are not among them. (The limit that recent interpreters put on
  the number of digits is left out.)
\<close>

definition int_blank :: "char \<Rightarrow> bool" where
  "int_blank c = ((of_char c :: nat) \<in> {9, 10, 11, 12, 13, 32, 133, 160})"

definition ascii_isdigit :: "char \<Rightarrow> bool" where
  "ascii_isdigit c = (48 \<le> (of_char c :: nat) \<and> (of_char c :: nat) \<le> 57)"

fun digit_groups :: "string \<Rightarrow> bool" where
  "digit_groups [] = False"
| "digit_groups [c] = ascii_isdigit c"
| "digit_groups (c # d # cs) =
     (ascii_isdigit c \<and> (if d = CHR ''_'' then digit_groups cs else digit_groups (d # cs)))"

definition skip_blanks :: "string \<Rightarrow> string" where
  "skip_blanks s = rev (dropWhile int_blank (rev (dropWhile int_blank s)))"

definition py_int :: "string \<Rightarrow> py_error + int" where
  "py_int s =
     (let t = skip_blanks s;
          negative = (t \<noteq> [] \<and> hd t = CHR ''-'');
          body = (if t \<noteq> [] \<and> (hd t = CHR ''-'' \<or> hd t = CHR ''+'') then tl t else t)
      in if digit_groups body
         then Inr ((if negative then - 1 else 1)
                   * foldl (\<lambda>acc c. acc * 10 + (int (of_char c) - 48)) 0 (filter ascii_isdigit body))
         else Inl ValueError)"

subsection \<open>Merged pair weights\<close>

text \<open>
  \<open>compute_pair_weights\<close>. A pair is a \<open>frozenset\<close> of names and is used here only as
  a dictionary key, so it is a set of strings. A rank dictionary is the list of its items
  in iteration order, the set of pairs of a rank the list of its elements in iteration
  order. The result dictionary is a map. The optional custom triples default to \<open>None\<close>;
  \<open>if custom_pairs\<close> skips \<open>None\<close> and the empty list alike.
\<close>

type_synonym pair = "string set"
type_synonym rank_dict = "(int \<times> pair list) list"



definition last_custom_weight :: "(string \<times> string \<times> real) list \<Rightarrow> pair \<Rightarrow> real option" where
  "last_custom_weight triples p =
     (case filter (\<lambda>(name1, name2, weight). {name1, name2} = p) triples of
        [] \<Rightarrow> None
      | t # ts \<Rightarrow> Some (snd (snd (last (t # ts)))))"

definition last_rank_listing :: "rank_dict \<Rightarrow> (int \<Rightarrow> bool) \<Rightarrow> pair \<Rightarrow> int option" where
  "last_rank_listing ranks eligible p =
     (case filter (\<lambda>(rank, pairs). eligible rank \<and> p \<in> set pairs) ranks of
        [] \<Rightarrow> None
      | t # ts \<Rightarrow> Some (fst (last (t # ts))))"


section \<open>Optimisation (src/utils/optimizer.py)\<close>

subsection \<open>The constraint model and the solver\<close>

text \<open>
  The constraint solver is outside the repository. Its model is kept as data: the Boolean
  variables created (\<open>X i s\<close> is \<open>x[i, s]\<close>, "person \<open>i\<close> occupies seat \<open>s\<close>"; \<open>M k\<close> is
  the \<open>k\<close>-th auxiliary product variable, identified by its order of creation), the
  constraints added, and the objective if one was set. \<open>Sum_eq xs k\<close> and \<open>Sum_le xs k\<close>
  are \<open>model.Add(sum(xs) == k)\<close> and \<open>model.Add(sum(xs) <= k)\<close>; \<open>Mult_eq m xs\<close> is
  \<open>model.AddMultiplicationEquality(m, xs)\<close>.
\<close>

datatype var = X int int | M nat

datatype constr = Sum_eq "var list" int | Sum_le "var list" int | Mult_eq var "var list"

record cp_model =
  model_vars :: "var list"
  model_constraints :: "constr list"
  model_objective :: "(real \<times> var) list option"

datatype solver_status = UNKNOWN | MODEL_INVALID | FEASIBLE | INFEASIBLE | OPTIMAL

text \<open>
  What one call of \<open>solver.Solve(model)\<close> leaves behind: the status, \<open>solver.Value\<close> of
  every variable (\<open>True\<close> for 1) and \<open>solver.ObjectiveValue()\<close>. A solver is any function
  from the model to such a response; the model differs at every call of one run, so this
  does not restrict how the answers of successive calls relate.
\<close>

record solve_response =
  response_status :: solver_status
  response_value :: "var \<Rightarrow> bool"
  response_objective :: real

type_synonym solver = "cp_model \<Rightarrow> solve_response"

text \<open>When a valuation of the variables satisfies a constraint.\<close>

definition sum_of :: "(var \<Rightarrow> bool) \<Rightarrow> var list \<Rightarrow> int" where
  "sum_of v xs = (\<Sum>x\<leftarrow>xs. if v x then 1 else 0)"

fun satisfies :: "(var \<Rightarrow> bool) \<Rightarrow> constr \<Rightarrow> bool" where
  "satisfies v (Sum_eq xs k) = (sum_of v xs = k)"
| "satisfies v (Sum_le xs k) = (sum_of v xs \<le> k)"
| "satisfies v (Mult_eq m xs) = (v m = list_all v xs)"

text \<open>
  The hypothesis on the solver: with status \<open>OPTIMAL\<close> or \<open>FEASIBLE\<close> the values it
  reports satisfy every constraint of the model it was given.
\<close>

definition sound_solver :: "solver \<Rightarrow> bool" where
  "sound_solver solver =
     (\<forall>model. response_status (solver model) \<in> {OPTIMAL, FEASIBLE} \<longrightarrow>
        (\<forall>c \<in> set (model_constraints model). satisfies (response_value (solver model)) c))"

text \<open>
  A small solver for examples: it answers with the first of the given valuations that
  satisfies all constraints of the model, and with \<open>INFEASIBLE\<close> when none does.
\<close>

definition first_fit_solver :: "var list list \<Rightarrow> solver" where
  "first_fit_solver candidates model =
     (case find (\<lambda>true_vars. list_all (satisfies (\<lambda>x. x \<in> set true_vars)) (model_constraints model))
             candidates of
        None \<Rightarrow> \<lparr>response_status = INFEASIBLE, response_value = (\<lambda>x. False), response_objective = 0\<rparr>
      | Some true_vars \<Rightarrow>
          \<lparr>response_status = FEASIBLE, response_value = (\<lambda>x. x \<in> set true_vars),
           response_objective = 0\<rparr>)"

subsection \<open>Results\<close>

text \<open>
  \<open>SeatAssignmentResult\<close>: the constructor stores its three arguments and sets the four
  metrics to zero. The attributes carry the prefix \<open>result_\<close> here.
\<close>

record seat_assignment_result =
  result_assignment :: "string \<rightharpoonup> int"
  result_objective :: real
  result_status :: solver_status
  result_satisfaction_rate :: real
  result_n_satisfied :: int
  result_n_total_people_with_pref :: int
  result_n_satisfied_pairs :: int

definition SeatAssignmentResult ::
  "(string \<rightharpoonup> int) \<Rightarrow> real \<Rightarrow> solver_status \<Rightarrow> seat_assignment_result" where
  "SeatAssignmentResult a obj st =
     \<lparr>result_assignment = a, result_objective = obj, result_status = st,
      result_satisfaction_rate = 0, result_n_satisfied = 0,
      result_n_total_people_with_pref = 0, result_n_satisfied_pairs = 0\<rparr>"

subsection \<open>Preparing the weighted pairs\<close>

text \<open>
  \<open>pair_weights.items()\<close> is the list of the dictionary's items in iteration order. The
  code enumerates each key with \<open>list(p)\<close>, so a key (a \<open>frozenset\<close> of names) is given
  here by the list of its elements in that order. The comprehension keeps the items with
  \<open>abs(w) > 1e-9\<close> and reads \<open>list(p)[0]\<close> and \<open>list(p)[1]\<close> of each of them; a key with
  fewer than two names raises IndexError there. A weight is a finite double, that is, a
  real number; the comparison is with the double that the literal \<open>1e-9\<close> denotes, which
  is \<open>4835703278458517 / 2^82\<close>, a little above \<open>10^-9\<close>.
\<close>

definition double_1e_9 :: real where
  "double_1e_9 = 4835703278458517 / 2 ^ 82"

definition negligible :: "real \<Rightarrow> bool" where
  "negligible w = (\<not> \<bar>w\<bar> > double_1e_9)"

definition weighted_pairs ::
  "(string list \<times> real) list \<Rightarrow> py_error + (string \<times> string \<times> real) list" where
  "weighted_pairs pair_weights =
     py_for (filter (\<lambda>(p, w). \<not> negligible w) pair_weights)
       (\<lambda>(p, w) acc.
          py_bind (py_index p 0) (\<lambda>a.
          py_bind (py_index p 1) (\<lambda>b. Inr (acc @ [(a, b, w)]))))
       []"

text \<open>\<open>{p: i for i, p in enumerate(people)}\<close>: a later occurrence of a name overwrites.\<close>

definition name_to_idx :: "string list \<Rightarrow> (string \<rightharpoonup> int)" where
  "name_to_idx people = fold (\<lambda>(i, p) m. m(p \<mapsto> int i)) (enumerate 0 people) Map.empty"

text \<open>The loop that turns names into ordered index pairs.\<close>

definition weighted_idx_pairs ::
  "(string \<rightharpoonup> int) \<Rightarrow> (string \<times> string \<times> real) list \<Rightarrow> (int \<times> int \<times> real) list" where
  "weighted_idx_pairs n2i pairs =
     fold (\<lambda>(a, b, w) acc.
             if a \<in> dom n2i \<and> b \<in> dom n2i
             then (let ia = the (n2i a); ib = the (n2i b) in
                   if ia = ib then acc
                   else if ia > ib then acc @ [(ib, ia, w)]
                   else acc @ [(ia, ib, w)])
             else acc)
       pairs []"

subsection \<open>Building the model\<close>

definition x_vars :: "int \<Rightarrow> int \<Rightarrow> var list" where
  "x_vars P S = concat (map (\<lambda>i. map (\<lambda>s. X i s) (py_range S)) (py_range P))"

text \<open>\<open>{seat: idx for idx, seat in enumerate(seats)}\<close>.\<close>

definition seat_to_idx :: "seat list \<Rightarrow> (seat \<rightharpoonup> int)" where
  "seat_to_idx seats = fold (\<lambda>(idx, seat) m. m(seat \<mapsto> int idx)) (enumerate 0 seats) Map.empty"

text \<open>
  The double loop over weighted index pairs and edges creates one product variable per
  pair and edge whose two seats are in the seat list. \<open>objective_terms\<close> lists, in order
  of creation, the coefficient and the two factors \<open>x[i, s]\<close> and \<open>x[j, t]\<close>.
\<close>

definition objective_terms ::
  "(seat \<rightharpoonup> int) \<Rightarrow> (int \<times> int \<times> real) list \<Rightarrow> edge list \<Rightarrow> (real \<times> var \<times> var) list" where
  "objective_terms s2i idx_pairs oriented_edges =
     concat (map (\<lambda>(i, j, w).
        concat (map (\<lambda>(seat1, seat2).
           if seat1 \<in> dom s2i \<and> seat2 \<in> dom s2i
           then [(w, X i (the (s2i seat1)), X j (the (s2i seat2)))]
           else []) oriented_edges)) idx_pairs)"

text \<open>
  The model before the first solve: the variables \<open>x\<close>, then the product variables; one
  constraint "exactly one seat" per person, one "at most one person" per seat, one
  product equality per term; the objective, set only when there is a term.
\<close>

definition build_model :: "int \<Rightarrow> int \<Rightarrow> (real \<times> var \<times> var) list \<Rightarrow> cp_model" where
  "build_model P S terms =
     \<lparr>model_vars = x_vars P S @ map M [0..<length terms],
      model_constraints =
        map (\<lambda>i. Sum_eq (map (\<lambda>s. X i s) (py_range S)) 1) (py_range P)
        @ map (\<lambda>s. Sum_le (map (\<lambda>i. X i s) (py_range P)) 1) (py_range S)
        @ map (\<lambda>(k, (w, a, b)). Mult_eq (M k) [a, b]) (enumerate 0 terms),
      model_objective =
        (if terms \<noteq> [] then Some (map (\<lambda>(k, (w, a, b)). (w, M k)) (enumerate 0 terms))
         else None)\<rparr>"

subsection \<open>The top-N loop\<close>

text \<open>
  Extracting the solution: for every person the first seat whose variable has value 1;
  a person without such a seat gets no entry in \<open>assign_idx\<close>.
\<close>

definition extract_assign_idx :: "(var \<Rightarrow> bool) \<Rightarrow> int \<Rightarrow> int \<Rightarrow> (int \<rightharpoonup> int)" where
  "extract_assign_idx val P S =
     fold (\<lambda>i assign_idx.
             case find (\<lambda>s. val (X i s)) (py_range S) of
               None \<Rightarrow> assign_idx
             | Some s \<Rightarrow> assign_idx(i \<mapsto> s))
       (py_range P) Map.empty"

text \<open>
  \<open>{people[i]: assign_idx[i] for i in range(P)}\<close>: reading a missing \<open>assign_idx[i]\<close>
  raises KeyError.
\<close>

definition build_assignment ::
  "string list \<Rightarrow> int \<Rightarrow> (int \<rightharpoonup> int) \<Rightarrow> py_error + (string \<rightharpoonup> int)" where
  "build_assignment people P assign_idx =
     py_for (py_range P)
       (\<lambda>i a. case assign_idx i of
                 None \<Rightarrow> Inl KeyError
               | Some s \<Rightarrow> Inr (a(people ! nat i \<mapsto> s)))
       Map.empty"

text \<open>The no-good cut \<open>sum(x[i, assign_idx[i]] for i in range(P)) <= P - 1\<close>.\<close>

definition no_good_cut :: "int \<Rightarrow> (int \<rightharpoonup> int) \<Rightarrow> constr" where
  "no_good_cut P assign_idx = Sum_le (map (\<lambda>i. X i (the (assign_idx i))) (py_range P)) (P - 1)"

text \<open>
  The loop \<open>for k in range(top_n)\<close>, over the list of the remaining values of \<open>k\<close>. Its
  state is the model, the results so far and the number of solver calls so far. A status
  other than \<open>OPTIMAL\<close> and \<open>FEASIBLE\<close> leaves the loop. The list \<open>used_solutions\<close> is
  written and never read; it is left out, as are the progress callback and the debug
  output, which do not influence the result.
\<close>

fun solve_loop ::
  "solver \<Rightarrow> string list \<Rightarrow> int \<Rightarrow> int \<Rightarrow> int list \<Rightarrow> cp_model \<Rightarrow> seat_assignment_result list \<Rightarrow> nat
     \<Rightarrow> (py_error + seat_assignment_result list) \<times> cp_model \<times> nat" where
  "solve_loop solver people P S [] model results calls = (Inr results, model, calls)"
| "solve_loop solver people P S (k # ks) model results calls =
     (let response = solver model in
      if response_status response \<notin> {OPTIMAL, FEASIBLE} then (Inr results, model, Suc calls)
      else
        (let assign_idx = extract_assign_idx (response_value response) P S;
             obj_value = (if model_objective model \<noteq> None then response_objective response else 0)
         in case build_assignment people P assign_idx of
              Inl e \<Rightarrow> (Inl e, model, Suc calls)
            | Inr a \<Rightarrow>
                solve_loop solver people P S ks
                  (model\<lparr>model_constraints := model_constraints model @ [no_good_cut P assign_idx]\<rparr>)
                  (results @ [SeatAssignmentResult a obj_value (response_status response)])
                  (Suc calls)))"

text \<open>
  \<open>solve_top_n_assignments\<close>. The result has three parts: the returned list or the
  exception raised; the constraint model as the run left it, \<open>None\<close> when none was
  created; and the number of calls of \<open>solver.Solve\<close>.
\<close>

definition solve_top_n_assignments ::
  "solver \<Rightarrow> string list \<Rightarrow> seat list \<Rightarrow> (string list \<times> real) list \<Rightarrow> edge list \<Rightarrow> int
     \<Rightarrow> (py_error + seat_assignment_result list) \<times> cp_model option \<times> nat" where
  "solve_top_n_assignments solver people seats pair_weights oriented_edges top_n =
     (case weighted_pairs pair_weights of
        Inl e \<Rightarrow> (Inl e, None, 0)
      | Inr pairs \<Rightarrow>
          (let n2i = name_to_idx people;
               P = int (length people);
               S = int (length seats)
           in if P > S then (Inl ValueError, None, 0)
              else
                (let idx_pairs = weighted_idx_pairs n2i pairs;
                     terms = objective_terms (seat_to_idx seats) idx_pairs oriented_edges;
                     model = build_model P S terms
                 in case solve_loop solver people P S (py_range top_n) model [] 0 of
                      (outcome, final_model, calls) \<Rightarrow> (outcome, Some final_model, calls))))"

subsection \<open>Vocabulary for stating the claims on the loop\<close>

text \<open>
  Two results differ when some person has different seats in them. \<open>seat_of p r\<close> is the
  seat of the person \<open>p\<close> in the result \<open>r\<close>. \<open>result_cut\<close> is the no-good cut of a
  result, written with the names of the result's assignment.
\<close>

definition differ :: "string list \<Rightarrow> seat_assignment_result \<Rightarrow> seat_assignment_result \<Rightarrow> bool" where
  "differ people r1 r2 = (\<exists>p \<in> set people. result_assignment r1 p \<noteq> result_assignment r2 p)"

definition seat_of :: "string \<Rightarrow> seat_assignment_result \<Rightarrow> int option" where
  "seat_of p r = result_assignment r p"

definition result_cut :: "string list \<Rightarrow> seat_assignment_result \<Rightarrow> constr" where
  "result_cut people r =
     Sum_le (map (\<lambda>i. X i (the (result_assignment r (people ! nat i))))
               (py_range (int (length people))))
            (int (length people) - 1)"

subsection \<open>Satisfaction metrics\<close>

text \<open>\<open>seats.index(x)\<close>: the first position of \<open>x\<close>, ValueError when there is none.\<close>

fun first_index :: "'a list \<Rightarrow> 'a \<Rightarrow> nat option" where
  "first_index [] x = None"
| "first_index (y # ys) x = (if x = y then Some 0 else map_option Suc (first_index ys x))"

definition py_list_index :: "'a list \<Rightarrow> 'a \<Rightarrow> py_error + int" where
  "py_list_index xs x = (case first_index xs x of None \<Rightarrow> Inl ValueError | Some i \<Rightarrow> Inr (int i))"

text \<open>
  The set of adjacent seat-index pairs; an edge with a coordinate that is not in the seat
  list raises ValueError inside the \<open>try\<close> and is skipped.
\<close>

definition adjacent_seats :: "seat list \<Rightarrow> edge list \<Rightarrow> int set set" where
  "adjacent_seats seats oriented_edges =
     fold (\<lambda>((c1, r1), (c2, r2)) adj.
             case py_bind (py_list_index seats (c1, r1)) (\<lambda>idx1.
                  py_bind (py_list_index seats (c2, r2)) (\<lambda>idx2.
                  Inr (insert {idx1, idx2} adj))) of
               Inl e \<Rightarrow> adj
             | Inr adj' \<Rightarrow> adj')
       oriented_edges {}"

text \<open>
  The two loops over pairs. A set of pairs is the list of its elements in iteration
  order, each pair the list \<open>list(pair)\<close>; unpacking \<open>person1, person2 = list(pair)\<close>
  raises ValueError unless the pair has exactly two names. The state of the first loop is
  the set of satisfied people and the number of satisfied pairs; the second loop only
  counts.
\<close>

definition satisfied_loop ::
  "(string \<rightharpoonup> int) \<Rightarrow> int set set \<Rightarrow> string list list \<Rightarrow> py_error + (string set \<times> nat)" where
  "satisfied_loop person_to_sidx adj pairs =
     py_for pairs
       (\<lambda>pair (satisfied_people, satisfied_pairs).
          case pair of
            [person1, person2] \<Rightarrow>
              if person1 \<notin> dom person_to_sidx \<or> person2 \<notin> dom person_to_sidx
              then Inr (satisfied_people, satisfied_pairs)
              else if {the (person_to_sidx person1), the (person_to_sidx person2)} \<in> adj
              then Inr (insert person2 (insert person1 satisfied_people), satisfied_pairs + 1)
              else Inr (satisfied_people, satisfied_pairs)
          | _ \<Rightarrow> Inl ValueError)
       ({}, 0)"

text \<open>
  A Python float is an IEEE double, and its arithmetic rounds. The model does not compute
  doubles: a float is given by the operations that produce it. \<open>Float_zero\<close> is the
  literal \<open>0.0\<close>, \<open>True_div k n\<close> the double \<open>k / n\<close> of two ints, and \<open>Float_times x m\<close>
  the double \<open>x * m\<close> of a float and an int.
\<close>

datatype py_float = Float_zero | True_div nat nat | Float_times py_float nat

text \<open>
  \<open>compute_satisfaction_metrics\<close>. The rank dictionary is optional; \<open>None\<close> and a
  dictionary without the key 1 give the rate \<open>0.0\<close>. Otherwise the rate is the float
  \<open>(satisfied_first_pairs / len(first_rank_pairs)) * 100\<close>. The parameter \<open>people\<close> is
  not used by the function.
\<close>

definition compute_satisfaction_metrics ::
  "(string \<rightharpoonup> int) \<Rightarrow> string list \<Rightarrow> seat list \<Rightarrow> string list list \<Rightarrow> edge list
     \<Rightarrow> (int \<rightharpoonup> string list list) option \<Rightarrow> py_error + (nat \<times> nat \<times> nat \<times> py_float)" where
  "compute_satisfaction_metrics assignment people seats positive_pairs oriented_edges
       willing_pairs_by_rank =
     (let person_to_sidx = assignment;
          adj = adjacent_seats seats oriented_edges
      in py_bind (satisfied_loop person_to_sidx adj positive_pairs)
           (\<lambda>(satisfied_people, satisfied_pairs).
      let total_people_with_pref =
            (if positive_pairs \<noteq> [] then card (\<Union> (set ` set positive_pairs)) else 0)
      in py_bind
           (case willing_pairs_by_rank of
              None \<Rightarrow> Inr Float_zero
            | Some by_rank \<Rightarrow>
               (case by_rank 1 of
                  None \<Rightarrow> Inr Float_zero
                | Some first_rank_pairs \<Rightarrow>
                    py_bind (satisfied_loop person_to_sidx adj first_rank_pairs)
                      (\<lambda>(first_people, satisfied_first_pairs).
                         Inr (if length first_rank_pairs > 0
                              then Float_times
                                     (True_div satisfied_first_pairs (length first_rank_pairs)) 100
                              else Float_zero))))
           (\<lambda>first_preference_rate.
      Inr (card satisfied_people, total_people_with_pref, satisfied_pairs,
           first_preference_rate))))"

subsection \<open>Vocabulary for stating the claim on the metrics\<close>

text \<open>
  The adjacency pairs resolved from the edge list: for every edge whose two coordinates
  are in the seat list, the unordered pair of their (first) indices. A pair of people is
  satisfied when all its members are in the assignment and their seat indices form such a
  pair.
\<close>

definition resolved_adjacency :: "seat list \<Rightarrow> edge list \<Rightarrow> int set set" where
  "resolved_adjacency seats oriented_edges =
     (\<lambda>(A, B). {int (the (first_index seats A)), int (the (first_index seats B))})
       ` {(A, B). (A, B) \<in> set oriented_edges \<and> A \<in> set seats \<and> B \<in> set seats}"

definition pair_satisfied :: "(string \<rightharpoonup> int) \<Rightarrow> seat list \<Rightarrow> edge list \<Rightarrow> string list \<Rightarrow> bool" where
  "pair_satisfied a seats oriented_edges p =
     (set p \<subseteq> dom a \<and> (\<lambda>q. the (a q)) ` set p \<in> resolved_adjacency seats oriented_edges)"

section \<open>Facts about the Python primitives\<close>

lemma py_bind_Inr [simp]: "py_bind (Inr a) f = f a"
  by (simp add: py_bind_def)

lemma py_bind_Inl [simp]: "py_bind (Inl e) f = Inl e"
  by (simp add: py_bind_def)

lemma set_py_range [simp]: "set (py_range n) = {0..<n}"
  by (auto simp: py_range_def)

lemma distinct_py_range [simp]: "distinct (py_range n)"
  by (simp add: py_range_def)

lemma length_py_range [simp]: "length (py_range n) = nat n"
  by (simp add: py_range_def)

lemma py_index_in_range:
  "0 \<le> i \<Longrightarrow> i < int (length xs) \<Longrightarrow> py_index xs i = Inr (xs ! nat i)"
  by (simp add: py_index_def)

lemma py_index_beyond:
  "int (length xs) \<le> i \<Longrightarrow> py_index xs i = Inl IndexError"
  by (simp add: py_index_def)

lemma py_for_append:
  "(\<And>x s. x \<in> set xs \<Longrightarrow> body x s = Inr (s @ g x))
   \<Longrightarrow> py_for xs body s = Inr (s @ concat (map g xs))"
  by (induction xs arbitrary: s) simp_all

lemma py_for_snoc: "py_for xs (\<lambda>x s. Inr (s @ [h x])) s = Inr (s @ map h xs)"
  by (induction xs arbitrary: s) simp_all

lemma map_nat_upto: "map (\<lambda>c. f (nat c)) [0..int n - 1] = map f [0..<n]"
  by (rule nth_equalityI) simp_all

section \<open>Seat generation\<close>

lemma generate_seats_eq:
  assumes "n_cols \<le> int (length rows_per_col)"
  shows "generate_seats n_cols rows_per_col =
           Inr (concat (map (\<lambda>c. map (\<lambda>r. (c, r)) (py_range (rows_per_col ! nat c)))
                  (py_range n_cols)))"
proof -
  have "py_for (py_range n_cols)
          (\<lambda>c seats. py_bind (py_index rows_per_col c)
             (\<lambda>k. py_for (py_range k) (\<lambda>r seats. Inr (seats @ [(c, r)])) seats)) [] =
        Inr ([] @ concat (map (\<lambda>c. map (\<lambda>r. (c, r)) (py_range (rows_per_col ! nat c)))
                  (py_range n_cols)))"
  proof (rule py_for_append)
    fix c :: int and s :: "seat list"
    assume "c \<in> set (py_range n_cols)"
    with assms have "0 \<le> c" "c < int (length rows_per_col)" by auto
    then show "py_bind (py_index rows_per_col c)
            (\<lambda>k. py_for (py_range k) (\<lambda>r seats. Inr (seats @ [(c, r)])) s) =
          Inr (s @ map (\<lambda>r. (c, r)) (py_range (rows_per_col ! nat c)))"
      by (simp add: py_index_in_range py_for_snoc)
  qed
  then show ?thesis by (simp add: generate_seats_def)
qed

text \<open>
  C8. \<open>generate_seats\<close> lists the seats in column-major order: columns \<open>0\<close> to
  \<open>n_cols - 1\<close> and, within column \<open>c\<close>, rows \<open>0\<close> to \<open>rows_per_col[c] - 1\<close>, for every
  column count and every rows-per-column list that has an entry for each column. For 3
  columns with rows \<open>[2, 1, 2]\<close> the result is \<open>[(0,0), (0,1), (1,0), (2,0), (2,1)]\<close>,
  and the seat at index 3 is \<open>(2, 0)\<close>.
\<close>

theorem generate_seats_column_major:
  "(n_cols \<le> int (length rows_per_col) \<longrightarrow>
      generate_seats n_cols rows_per_col =
        Inr (concat (map (\<lambda>c. map (\<lambda>r. (c, r)) [0..rows_per_col ! nat c - 1]) [0..n_cols - 1])))
   \<and> generate_seats 3 [2, 1, 2] = Inr [(0,0), (0,1), (1,0), (2,0), (2,1)]
   \<and> map_sum id (\<lambda>seats. seats ! 3) (generate_seats 3 [2, 1, 2]) = Inr (2, 0)"
proof -
  have ex: "generate_seats 3 [2, 1, 2] = Inr [(0,0), (0,1), (1,0), (2,0), (2,1)]"
    by code_simp
  show ?thesis
    by (simp add: ex generate_seats_eq py_range_def)
qed

theorem generate_seats_column_major_witness:
  "2 \<le> int (length [3, 1 :: int])
   \<and> generate_seats 2 [3, 1] = Inr [(0,0), (0,1), (0,2), (1,0)]"
  using generate_seats_column_major [of 2 "[3, 1]"] by (simp add: upto.simps)

section \<open>Validation and generation agree\<close>

lemma length_concat_rows:
  "length (concat (map (\<lambda>c. map (\<lambda>r. (c, r)) (py_range (f c))) cs))
     = (\<Sum>c\<leftarrow>cs. nat (f c))"
  by (induction cs) simp_all

lemma distinct_concat_rows:
  "distinct cs \<Longrightarrow> distinct (concat (map (\<lambda>c. map (\<lambda>r. (c, r)) (py_range (f c))) cs))"
  by (induction cs) (auto simp: distinct_map inj_on_def)

lemma sum_list_nat_rows:
  assumes "\<forall>r \<in> set rows. 0 \<le> r"
  shows "int (\<Sum>c\<leftarrow>[0..int (length rows) - 1]. nat (rows ! nat c)) = sum_list rows"
proof -
  have "(\<Sum>c\<leftarrow>[0..int (length rows) - 1]. nat (rows ! nat c))
          = sum_list (map (\<lambda>i. nat (rows ! i)) [0..<length rows])"
    using map_nat_upto [of "\<lambda>i. nat (rows ! i)" "length rows"] by simp
  also have "\<dots> = sum_list (map nat rows)"
  proof -
    have "map (\<lambda>i. nat (rows ! i)) [0..<length rows] = map nat rows"
      by (rule nth_equalityI) simp_all
    then show ?thesis by simp
  qed
  finally have "(\<Sum>c\<leftarrow>[0..int (length rows) - 1]. nat (rows ! nat c)) = sum_list (map nat rows)" .
  moreover have "int (sum_list (map nat rows)) = sum_list rows"
    using assms by (induction rows) auto
  ultimately show ?thesis by simp
qed

text \<open>
  C9. When \<open>validate_layout\<close> accepts a column count, a rows-per-column list and a
  people count (it returns \<open>True\<close> with the empty message), \<open>generate_seats\<close> on the
  same column count and list returns a list whose length is the sum of the rows-per-column
  values, that length is at least the people count, and no coordinate pair occurs twice.
\<close>

theorem validate_layout_generate_seats:
  assumes "validate_layout n_cols rows_per_col num_people = (True, Empty_message)"
  shows "\<exists>seats. generate_seats n_cols rows_per_col = Inr seats
           \<and> int (length seats) = sum_list rows_per_col
           \<and> num_people \<le> int (length seats)
           \<and> distinct seats"
proof -
  from assms have len: "int (length rows_per_col) = n_cols"
    and pos: "\<forall>r \<in> set rows_per_col. 0 < r"
    and enough: "num_people \<le> sum_list rows_per_col"
    by (auto simp: validate_layout_def list_ex_iff Let_def not_le split: if_splits)
  let ?seats = "concat (map (\<lambda>c. map (\<lambda>r. (c, r)) (py_range (rows_per_col ! nat c)))
                  (py_range n_cols))"
  have gen: "generate_seats n_cols rows_per_col = Inr ?seats"
    using len by (simp add: generate_seats_eq)
  have "length ?seats = (\<Sum>c\<leftarrow>py_range n_cols. nat (rows_per_col ! nat c))"
    by (rule length_concat_rows)
  also have "\<dots> = (\<Sum>c\<leftarrow>[0..int (length rows_per_col) - 1]. nat (rows_per_col ! nat c))"
    using len by (simp add: py_range_def)
  finally have "int (length ?seats) = sum_list rows_per_col"
    using sum_list_nat_rows [of rows_per_col] pos by (simp add: less_imp_le)
  moreover have "distinct ?seats"
    by (rule distinct_concat_rows) simp
  ultimately show ?thesis using gen enough by simp
qed

theorem validate_layout_generate_seats_witness:
  "validate_layout 3 [2, 1, 2] 4 = (True, Empty_message)
   \<and> (\<exists>seats. generate_seats 3 [2, 1, 2] = Inr seats
         \<and> int (length seats) = sum_list [2, 1, 2]
         \<and> 4 \<le> int (length seats)
         \<and> distinct seats)"
proof -
  have v: "validate_layout 3 [2, 1, 2] 4 = (True, Empty_message)"
    by (simp add: validate_layout_def)
  show ?thesis using v validate_layout_generate_seats [OF v] by simp
qed

section \<open>Adjacency edges\<close>

lemma has_aisle_between_iff: "has_aisle_between aisles c1 c2 = aisle_declared aisles c1 c2"
  by (auto simp: has_aisle_between_def aisle_declared_def list_ex_iff)

lemma edges_at_eq:
  assumes "n_cols \<le> int (length rows)" "0 \<le> c" "c < n_cols"
  shows "edges_at n_cols rows diag aisles c r edges
           = Inr (edges @ edges_from n_cols rows diag aisles c r)"
proof -
  have c: "py_index rows c = Inr (rows ! nat c)"
    using assms by (simp add: py_index_in_range)
  have c1: "c + 1 < n_cols \<Longrightarrow> py_index rows (c + 1) = Inr (rows ! nat (c + 1))"
    using assms by (simp add: py_index_in_range)
  show ?thesis
    by (cases "c + 1 < n_cols") (simp_all add: edges_at_def edges_from_def c c1 Let_def)
qed

lemma generate_adjacent_edges_eq:
  assumes "n_cols \<le> int (length rows)"
  shows "generate_adjacent_edges n_cols rows diag aisles_arg =
           Inr (concat (map (\<lambda>c. concat (map (edges_from n_cols rows diag
                    (case aisles_arg of None \<Rightarrow> [] | Some a \<Rightarrow> a) c) (py_range (rows ! nat c))))
                  (py_range n_cols)))"
proof -
  let ?aisles = "case aisles_arg of None \<Rightarrow> [] | Some a \<Rightarrow> a"
  have "py_for (py_range n_cols)
        (\<lambda>c edges. py_bind (py_index rows c)
           (\<lambda>k. py_for (py_range k) (edges_at n_cols rows diag ?aisles c) edges))
        [] = Inr ([] @ concat (map (\<lambda>c. concat (map (edges_from n_cols rows diag ?aisles c)
                 (py_range (rows ! nat c)))) (py_range n_cols)))"
  proof (rule py_for_append)
    fix c :: int and s :: "edge list"
    assume "c \<in> set (py_range n_cols)"
    then have c: "0 \<le> c" "c < n_cols" by auto
    with assms have "py_index rows c = Inr (rows ! nat c)"
      by (simp add: py_index_in_range)
    moreover have "py_for (py_range (rows ! nat c)) (edges_at n_cols rows diag ?aisles c) s
        = Inr (s @ concat (map (edges_from n_cols rows diag ?aisles c) (py_range (rows ! nat c))))"
      by (rule py_for_append) (simp add: edges_at_eq [OF assms c])
    ultimately show "py_bind (py_index rows c)
           (\<lambda>k. py_for (py_range k) (edges_at n_cols rows diag ?aisles c) s)
         = Inr (s @ concat (map (edges_from n_cols rows diag ?aisles c) (py_range (rows ! nat c))))"
      by simp
  qed
  then show ?thesis by (simp add: generate_adjacent_edges_def)
qed

lemma in_edges_iff:
  "e \<in> set (concat (map (\<lambda>c. concat (map (edges_from n_cols rows diag aisles c)
                    (py_range (rows ! nat c)))) (py_range n_cols)))
   \<longleftrightarrow> (\<exists>c r. seat_exists n_cols rows (c, r) \<and> e \<in> set (edges_from n_cols rows diag aisles c r))"
  unfolding seat_exists_def set_concat set_map set_py_range by (simp add: Bex_def)

lemma in_edges_from_iff:
  assumes "seat_exists n_cols rows (c, r)"
  shows "(A, B) \<in> set (edges_from n_cols rows diag aisles c r) \<longleftrightarrow>
     (A = (c, r) \<and> forward_neighbour n_cols rows diag aisles A B) \<or> (B = (c, r) \<and> forward_neighbour n_cols rows diag aisles B A)"
  using assms
  by (cases A; cases B) (auto simp: edges_from_def forward_neighbour_def seat_exists_def has_aisle_between_iff)


lemma generate_adjacent_edges_set:
  assumes "n_cols \<le> int (length rows)"
  shows "\<exists>edges. generate_adjacent_edges n_cols rows diag aisles_arg = Inr edges \<and>
     (\<forall>A B. (A, B) \<in> set edges \<longleftrightarrow>
         forward_neighbour n_cols rows diag (case aisles_arg of None \<Rightarrow> [] | Some a \<Rightarrow> a) A B
       \<or> forward_neighbour n_cols rows diag (case aisles_arg of None \<Rightarrow> [] | Some a \<Rightarrow> a) B A)"
proof -
  let ?aisles = "case aisles_arg of None \<Rightarrow> [] | Some a \<Rightarrow> a"
  let ?edges = "concat (map (\<lambda>c. concat (map (edges_from n_cols rows diag ?aisles c)
                    (py_range (rows ! nat c)))) (py_range n_cols))"
  have fwd: "seat_exists n_cols rows A" if "forward_neighbour n_cols rows diag ?aisles A B" for A B
    using that by (cases A; cases B) (simp add: forward_neighbour_def)
  have "(A, B) \<in> set ?edges \<longleftrightarrow>
         forward_neighbour n_cols rows diag ?aisles A B
       \<or> forward_neighbour n_cols rows diag ?aisles B A" for A B
  proof
    assume "(A, B) \<in> set ?edges"
    then obtain c r where "seat_exists n_cols rows (c, r)"
      and "(A, B) \<in> set (edges_from n_cols rows diag ?aisles c r)"
      unfolding in_edges_iff by blast
    then show "forward_neighbour n_cols rows diag ?aisles A B
       \<or> forward_neighbour n_cols rows diag ?aisles B A"
      by (simp add: in_edges_from_iff) blast
  next
    assume h: "forward_neighbour n_cols rows diag ?aisles A B
       \<or> forward_neighbour n_cols rows diag ?aisles B A"
    then show "(A, B) \<in> set ?edges"
    proof
      assume f: "forward_neighbour n_cols rows diag ?aisles A B"
      obtain c r where A: "A = (c, r)" by (cases A)
      with fwd [OF f] have "seat_exists n_cols rows (c, r)" by simp
      then show ?thesis
        unfolding in_edges_iff using f A in_edges_from_iff by blast
    next
      assume f: "forward_neighbour n_cols rows diag ?aisles B A"
      obtain c r where B: "B = (c, r)" by (cases B)
      with fwd [OF f] have "seat_exists n_cols rows (c, r)" by simp
      then show ?thesis
        unfolding in_edges_iff using f B in_edges_from_iff by blast
    qed
  qed
  then show ?thesis
    using generate_adjacent_edges_eq [OF assms, of diag aisles_arg] by simp
qed

text \<open>
  C4. \<open>generate_adjacent_edges\<close> returns exactly the specified edges, for every layout
  whose rows-per-column list has an entry for each column. For every seat \<open>(c, r)\<close>: the
  edge to \<open>(c+1, r)\<close> is in the list iff that seat exists and no aisle is declared
  between columns \<open>c\<close> and \<open>c+1\<close> (in either order); the edge to \<open>(c, r+1)\<close> is in the
  list iff that seat exists, whatever the aisles; the edges to \<open>(c+1, r+1)\<close> and
  \<open>(c+1, r-1)\<close> are in the list iff the diagonal flag is set, the target seat exists and
  no aisle separates the two columns. Every edge is in the list with its reverse, every
  edge joins two existing seats in one of these eight directions, and for two columns of
  one row each, no diagonal and an aisle between columns 0 and 1 the list is empty.
\<close>

theorem generate_adjacent_edges_exact:
  assumes "n_cols \<le> int (length rows)"
  shows "\<exists>edges. generate_adjacent_edges n_cols rows diag aisles_arg = Inr edges \<and>
     (\<forall>c r. seat_exists n_cols rows (c, r) \<longrightarrow>
        (((c, r), (c + 1, r)) \<in> set edges \<longleftrightarrow>
            seat_exists n_cols rows (c + 1, r)
            \<and> \<not> aisle_declared (case aisles_arg of None \<Rightarrow> [] | Some a \<Rightarrow> a) c (c + 1)) \<and>
        (((c, r), (c, r + 1)) \<in> set edges \<longleftrightarrow> seat_exists n_cols rows (c, r + 1)) \<and>
        (((c, r), (c + 1, r + 1)) \<in> set edges \<longleftrightarrow>
            diag \<and> seat_exists n_cols rows (c + 1, r + 1)
            \<and> \<not> aisle_declared (case aisles_arg of None \<Rightarrow> [] | Some a \<Rightarrow> a) c (c + 1)) \<and>
        (((c, r), (c + 1, r - 1)) \<in> set edges \<longleftrightarrow>
            diag \<and> seat_exists n_cols rows (c + 1, r - 1)
            \<and> \<not> aisle_declared (case aisles_arg of None \<Rightarrow> [] | Some a \<Rightarrow> a) c (c + 1))) \<and>
     (\<forall>A B. (A, B) \<in> set edges \<longrightarrow> (B, A) \<in> set edges) \<and>
     (\<forall>A B. (A, B) \<in> set edges \<longrightarrow>
        seat_exists n_cols rows A \<and> seat_exists n_cols rows B \<and>
        (fst B - fst A, snd B - snd A) \<in>
           {(1, 0), (0, 1), (1, 1), (1, - 1), (- 1, 0), (0, - 1), (- 1, - 1), (- 1, 1)}) \<and>
     generate_adjacent_edges 2 [1, 1] False (Some [(0, 1)]) = Inr []"
proof -
  let ?aisles = "case aisles_arg of None \<Rightarrow> [] | Some a \<Rightarrow> a"
  from generate_adjacent_edges_set [OF assms, of diag aisles_arg]
  obtain edges where gen: "generate_adjacent_edges n_cols rows diag aisles_arg = Inr edges"
    and mem: "\<And>A B. (A, B) \<in> set edges \<longleftrightarrow>
         forward_neighbour n_cols rows diag ?aisles A B
       \<or> forward_neighbour n_cols rows diag ?aisles B A"
    by blast
  have right: "((c, r), (c + 1, r)) \<in> set edges \<longleftrightarrow>
            seat_exists n_cols rows (c + 1, r) \<and> \<not> aisle_declared ?aisles c (c + 1)"
    if "seat_exists n_cols rows (c, r)" for c r
    using that by (auto simp: mem forward_neighbour_def)
  have up: "((c, r), (c, r + 1)) \<in> set edges \<longleftrightarrow> seat_exists n_cols rows (c, r + 1)"
    if "seat_exists n_cols rows (c, r)" for c r
    using that by (auto simp: mem forward_neighbour_def)
  have up_right: "((c, r), (c + 1, r + 1)) \<in> set edges \<longleftrightarrow>
            diag \<and> seat_exists n_cols rows (c + 1, r + 1) \<and> \<not> aisle_declared ?aisles c (c + 1)"
    if "seat_exists n_cols rows (c, r)" for c r
    using that by (auto simp: mem forward_neighbour_def)
  have down_right: "((c, r), (c + 1, r - 1)) \<in> set edges \<longleftrightarrow>
            diag \<and> seat_exists n_cols rows (c + 1, r - 1) \<and> \<not> aisle_declared ?aisles c (c + 1)"
    if "seat_exists n_cols rows (c, r)" for c r
    using that by (auto simp: mem forward_neighbour_def)
  have sym: "(B, A) \<in> set edges" if "(A, B) \<in> set edges" for A B
    using that by (auto simp: mem)
  have shape: "seat_exists n_cols rows A \<and> seat_exists n_cols rows B \<and>
        (fst B - fst A, snd B - snd A) \<in>
           {(1, 0), (0, 1), (1, 1), (1, - 1), (- 1, 0), (0, - 1), (- 1, - 1), (- 1, 1)}"
    if "(A, B) \<in> set edges" for A B
    using that by (cases A; cases B) (auto simp: mem forward_neighbour_def)
  have ex: "generate_adjacent_edges 2 [1, 1] False (Some [(0, 1)]) = Inr []"
    by code_simp
  have "(\<forall>c r. seat_exists n_cols rows (c, r) \<longrightarrow>
        (((c, r), (c + 1, r)) \<in> set edges \<longleftrightarrow>
            seat_exists n_cols rows (c + 1, r) \<and> \<not> aisle_declared ?aisles c (c + 1)) \<and>
        (((c, r), (c, r + 1)) \<in> set edges \<longleftrightarrow> seat_exists n_cols rows (c, r + 1)) \<and>
        (((c, r), (c + 1, r + 1)) \<in> set edges \<longleftrightarrow>
            diag \<and> seat_exists n_cols rows (c + 1, r + 1) \<and> \<not> aisle_declared ?aisles c (c + 1)) \<and>
        (((c, r), (c + 1, r - 1)) \<in> set edges \<longleftrightarrow>
            diag \<and> seat_exists n_cols rows (c + 1, r - 1) \<and> \<not> aisle_declared ?aisles c (c + 1)))"
    by (intro allI impI conjI) (rule right up up_right down_right, assumption)+
  moreover have "\<forall>A B. (A, B) \<in> set edges \<longrightarrow> (B, A) \<in> set edges"
    by (intro allI impI) (rule sym)
  moreover have "\<forall>A B. (A, B) \<in> set edges \<longrightarrow>
        seat_exists n_cols rows A \<and> seat_exists n_cols rows B \<and>
        (fst B - fst A, snd B - snd A) \<in>
           {(1, 0), (0, 1), (1, 1), (1, - 1), (- 1, 0), (0, - 1), (- 1, - 1), (- 1, 1)}"
    by (intro allI impI) (rule shape)
  ultimately show ?thesis
    using gen ex by (intro exI [of _ edges] conjI) assumption+
qed

theorem generate_adjacent_edges_exact_witness:
  "2 \<le> int (length [2, 2 :: int]) \<and>
   seat_exists 2 [2, 2] (0, 0) \<and>
   (\<exists>edges. generate_adjacent_edges 2 [2, 2] True (Some [(1, 0)]) = Inr edges \<and>
      ((0, 0), (0, 1)) \<in> set edges \<and> ((0, 1), (0, 0)) \<in> set edges \<and>
      ((0, 0), (1, 0)) \<notin> set edges \<and> ((0, 0), (1, 1)) \<notin> set edges)"
proof -
  have len: "2 \<le> int (length [2, 2 :: int])" by simp
  have s: "seat_exists 2 [2, 2] (0, 0)" "seat_exists 2 [2, 2] (0, 0 + 1)"
    by (simp_all add: seat_exists_def)
  have a: "aisle_declared (case Some [(1, 0)] of None \<Rightarrow> [] | Some a \<Rightarrow> a) 0 (0 + 1)"
    by (simp add: aisle_declared_def)
  from generate_adjacent_edges_exact [OF len, of True "Some [(1, 0)]"]
  obtain edges where gen: "generate_adjacent_edges 2 [2, 2] True (Some [(1, 0)]) = Inr edges"
    and iffs: "\<forall>c r. seat_exists 2 [2, 2] (c, r) \<longrightarrow>
        (((c, r), (c + 1, r)) \<in> set edges \<longleftrightarrow>
            seat_exists 2 [2, 2] (c + 1, r)
            \<and> \<not> aisle_declared (case Some [(1, 0)] of None \<Rightarrow> [] | Some a \<Rightarrow> a) c (c + 1)) \<and>
        (((c, r), (c, r + 1)) \<in> set edges \<longleftrightarrow> seat_exists 2 [2, 2] (c, r + 1)) \<and>
        (((c, r), (c + 1, r + 1)) \<in> set edges \<longleftrightarrow>
            True \<and> seat_exists 2 [2, 2] (c + 1, r + 1)
            \<and> \<not> aisle_declared (case Some [(1, 0)] of None \<Rightarrow> [] | Some a \<Rightarrow> a) c (c + 1)) \<and>
        (((c, r), (c + 1, r - 1)) \<in> set edges \<longleftrightarrow>
            True \<and> seat_exists 2 [2, 2] (c + 1, r - 1)
            \<and> \<not> aisle_declared (case Some [(1, 0)] of None \<Rightarrow> [] | Some a \<Rightarrow> a) c (c + 1))"
    and sym: "\<forall>A B. (A, B) \<in> set edges \<longrightarrow> (B, A) \<in> set edges"
    by blast
  from iffs s(1) have at00:
    "((0, 0), (0 + 1, 0)) \<in> set edges \<longleftrightarrow>
        seat_exists 2 [2, 2] (0 + 1, 0)
        \<and> \<not> aisle_declared (case Some [(1, 0)] of None \<Rightarrow> [] | Some a \<Rightarrow> a) 0 (0 + 1)"
    "((0, 0), (0, 0 + 1)) \<in> set edges \<longleftrightarrow> seat_exists 2 [2, 2] (0, 0 + 1)"
    "((0, 0), (0 + 1, 0 + 1)) \<in> set edges \<longleftrightarrow>
        True \<and> seat_exists 2 [2, 2] (0 + 1, 0 + 1)
        \<and> \<not> aisle_declared (case Some [(1, 0)] of None \<Rightarrow> [] | Some a \<Rightarrow> a) 0 (0 + 1)"
    by blast+
  have up: "((0, 0), (0, 1)) \<in> set edges" using at00(2) s(2) by simp
  then have down: "((0, 1), (0, 0)) \<in> set edges" using sym by blast
  have "((0, 0), (1, 0)) \<notin> set edges" "((0, 0), (1, 1)) \<notin> set edges"
    using at00(1,3) a by simp_all
  with gen up down len s(1) show ?thesis by blast
qed

section \<open>The adjacency test of the image exporter\<close>

lemma seat_positions_eq:
  "seat_positions seats idx =
     (if 0 \<le> idx \<and> idx < int (length seats) then Some (seats ! nat idx) else None)"
proof (cases "0 \<le> idx \<and> idx < int (length seats)")
  case True
  then have n: "nat idx < length seats" by (simp add: nat_less_iff)
  have "map_of (zip (map int [0..<length seats]) seats) (map int [0..<length seats] ! nat idx)
          = Some (seats ! nat idx)"
    by (rule map_of_zip_nth) (simp_all add: n distinct_map inj_on_def)
  with True n show ?thesis by (simp add: seat_positions_def)
next
  case False
  then have "idx \<notin> set (map int [0..<length seats])" by auto
  then have "map_of (zip (map int [0..<length seats]) seats) idx = None"
    by (simp add: map_of_zip_is_None)
  with False show ?thesis by (auto simp: seat_positions_def)
qed

lemma chebyshev_one:
  fixes dc dr :: int
  assumes "0 \<le> dc" "0 \<le> dr"
  shows "((dc \<le> 1 \<and> dr \<le> 1) \<and> dc + dr > 0) \<longleftrightarrow> max dc dr = 1"
  using assms by auto

lemma are_seats_adjacent_iff:
  "are_seats_adjacent assignment seats person1 person2 \<longleftrightarrow>
     (\<exists>s1 s2 c1 r1 c2 r2.
        assignment person1 = Some s1 \<and> assignment person2 = Some s2 \<and>
        0 \<le> s1 \<and> s1 < int (length seats) \<and> 0 \<le> s2 \<and> s2 < int (length seats) \<and>
        seats ! nat s1 = (c1, r1) \<and> seats ! nat s2 = (c2, r2) \<and>
        max \<bar>c1 - c2\<bar> \<bar>r1 - r2\<bar> = 1)"
proof (cases "assignment person1")
  case None
  then show ?thesis by (simp add: are_seats_adjacent_def)
next
  case s1: (Some s1)
  show ?thesis
  proof (cases "assignment person2")
    case None
    then show ?thesis by (simp add: are_seats_adjacent_def)
  next
    case s2: (Some s2)
    obtain c1 r1 where p1: "seats ! nat s1 = (c1, r1)" by (cases "seats ! nat s1")
    obtain c2 r2 where p2: "seats ! nat s2 = (c2, r2)" by (cases "seats ! nat s2")
    show ?thesis
      using chebyshev_one [of "\<bar>c1 - c2\<bar>" "\<bar>r1 - r2\<bar>"]
      by (auto simp: are_seats_adjacent_def s1 s2 p1 p2 seat_positions_eq dom_def Let_def)
  qed
qed

lemma split_same: "are_seats_adjacent_split = are_seats_adjacent"
  by (intro ext) (simp add: are_seats_adjacent_split_def are_seats_adjacent_def)

text \<open>
  C6. The adjacency test of the image exporter holds iff both persons are in the
  assignment, both seat indices are indices of the seat list, and the two coordinates are
  at Chebyshev distance exactly 1 (column and row differ by at most 1, not both by 0). The
  copy in the split visualisation is the same function. The test has neither the
  diagonal flag nor the edge list among its inputs: on the 2 by 2 grid generated without
  diagonals, seats \<open>(0,0)\<close> and \<open>(1,1)\<close> are joined by no edge and still count as
  adjacent for drawing.
\<close>

theorem are_seats_adjacent_chebyshev:
  "(are_seats_adjacent assignment seats person1 person2 \<longleftrightarrow>
     (\<exists>s1 s2 c1 r1 c2 r2.
        assignment person1 = Some s1 \<and> assignment person2 = Some s2 \<and>
        0 \<le> s1 \<and> s1 < int (length seats) \<and> 0 \<le> s2 \<and> s2 < int (length seats) \<and>
        seats ! nat s1 = (c1, r1) \<and> seats ! nat s2 = (c2, r2) \<and>
        max \<bar>c1 - c2\<bar> \<bar>r1 - r2\<bar> = 1))
   \<and> are_seats_adjacent_split assignment seats person1 person2
        = are_seats_adjacent assignment seats person1 person2
   \<and> (\<exists>seats edges.
         generate_seats 2 [2, 2] = Inr seats \<and>
         generate_adjacent_edges 2 [2, 2] False None = Inr edges \<and>
         ((0, 0), (1, 1)) \<notin> set edges \<and> ((1, 1), (0, 0)) \<notin> set edges \<and>
         seats ! 0 = (0, 0) \<and> seats ! 3 = (1, 1) \<and>
         are_seats_adjacent [''A'' \<mapsto> 0, ''B'' \<mapsto> 3] seats ''A'' ''B'')"
proof -
  have s: "generate_seats 2 [2, 2] = Inr [(0,0), (0,1), (1,0), (1,1)]"
    by code_simp
  have e: "generate_adjacent_edges 2 [2, 2] False None =
      Inr [((0, 0), (1, 0)), ((1, 0), (0, 0)), ((0, 0), (0, 1)), ((0, 1), (0, 0)),
           ((0, 1), (1, 1)), ((1, 1), (0, 1)), ((1, 0), (1, 1)), ((1, 1), (1, 0))]"
    by code_simp
  have a: "are_seats_adjacent [''A'' \<mapsto> 0, ''B'' \<mapsto> 3] [(0,0), (0,1), (1,0), (1,1)] ''A'' ''B''"
    by (simp add: are_seats_adjacent_iff)
  show ?thesis
    using a by (simp add: s e split_same are_seats_adjacent_iff [of assignment])
qed

theorem are_seats_adjacent_chebyshev_witness:
  "are_seats_adjacent [''A'' \<mapsto> 0, ''B'' \<mapsto> 3] [(0, 0), (0, 1), (1, 0), (1, 1)] ''A'' ''B''
   \<and> \<not> are_seats_adjacent [''A'' \<mapsto> 0, ''B'' \<mapsto> 5] [(0, 0), (0, 1), (1, 0), (1, 1)] ''A'' ''B''
   \<and> \<not> are_seats_adjacent_split [''A'' \<mapsto> 0] [(0, 0), (0, 1), (1, 0), (1, 1)] ''A'' ''B''"
proof -
  note t = are_seats_adjacent_chebyshev
  have 1: "are_seats_adjacent [''A'' \<mapsto> 0, ''B'' \<mapsto> 3] [(0, 0), (0, 1), (1, 0), (1, 1)] ''A'' ''B''"
    using t [of "[''A'' \<mapsto> 0, ''B'' \<mapsto> 3]" "[(0, 0), (0, 1), (1, 0), (1, 1)]" "''A''" "''B''"]
    by simp
  have 2: "\<not> are_seats_adjacent [''A'' \<mapsto> 0, ''B'' \<mapsto> 5] [(0, 0), (0, 1), (1, 0), (1, 1)] ''A'' ''B''"
    using t [of "[''A'' \<mapsto> 0, ''B'' \<mapsto> 5]" "[(0, 0), (0, 1), (1, 0), (1, 1)]" "''A''" "''B''"]
    by simp
  have 3: "\<not> are_seats_adjacent_split [''A'' \<mapsto> 0] [(0, 0), (0, 1), (1, 0), (1, 1)] ''A'' ''B''"
    using t [of "[''A'' \<mapsto> 0]" "[(0, 0), (0, 1), (1, 0), (1, 1)]" "''A''" "''B''"]
    by simp
  from 1 2 3 show ?thesis by simp
qed

section \<open>Parsing a cell range\<close>

lemma split_cell_fold:
  "fold (\<lambda>c (col, row). if isalpha c then (col @ [c], row) else (col, row @ [c])) cell (a, b)
     = (a @ filter isalpha cell, b @ filter (\<lambda>c. \<not> isalpha c) cell)"
  by (induction cell arbitrary: a b) simp_all

lemma split_cell_eq:
  "split_cell isalpha cell = (filter isalpha cell, filter (\<lambda>c. \<not> isalpha c) cell)"
  by (simp add: split_cell_def split_cell_fold)

lemma py_split_not_Nil [simp]: "py_split sep s \<noteq> []"
  by (induction s) (auto split: list.splits)

lemma length_py_split: "length (py_split sep s) = Suc (count_list s sep)"
  by (induction s) (auto split: list.splits)

lemma py_split_no_sep: "sep \<notin> set s \<Longrightarrow> py_split sep s = [s]"
  by (induction s) auto

lemma py_split_first: "sep \<notin> set a \<Longrightarrow> py_split sep (a @ sep # b) = a # py_split sep b"
  by (induction a) (auto split: list.splits)

lemma py_split_two:
  "sep \<notin> set a \<Longrightarrow> sep \<notin> set b \<Longrightarrow> py_split sep (a @ sep # b) = [a, b]"
  by (simp add: py_split_first py_split_no_sep)

lemma parse_cell_range_try_many:
  assumes "count_list range_spec CHR '':'' \<noteq> 1"
  shows "parse_cell_range_try isalpha column_index to_int range_spec = Inl ValueError"
proof -
  have "length (py_split CHR '':'' range_spec) \<noteq> 2"
    using assms by (simp add: length_py_split)
  then show ?thesis
    by (auto simp: parse_cell_range_try_def split: list.splits)
qed

lemma parse_cell_range_two:
  assumes "CHR '':'' \<notin> set start" "CHR '':'' \<notin> set end"
  shows "parse_cell_range isalpha column_index to_int (start @ '':'' @ end) =
     (case (column_index (filter isalpha start),
            column_index (filter isalpha end),
            if filter (\<lambda>c. \<not> isalpha c) start = [] then Inr 0
            else map_sum id (\<lambda>n. n - 1) (to_int (filter (\<lambda>c. \<not> isalpha c) start)),
            if filter (\<lambda>c. \<not> isalpha c) end = [] then Inr None
            else map_sum id (\<lambda>n. Some (n - 1)) (to_int (filter (\<lambda>c. \<not> isalpha c) end))) of
        (Inr start_col, Inr end_col, Inr start_row, Inr end_row) \<Rightarrow>
            (Some (start_col - 1), Some start_row, Some (end_col - 1), end_row)
      | _ \<Rightarrow> (None, None, None, None))"
proof -
  have sp: "py_split CHR '':'' (start @ CHR '':'' # end) = [start, end]"
    by (rule py_split_two [OF assms])
  have colon: "start @ CHR '':'' # end \<noteq> []" "CHR '':'' \<in> set (start @ CHR '':'' # end)"
    by simp_all
  have unfolded: "parse_cell_range isalpha column_index to_int (start @ CHR '':'' # end) =
     (case py_bind (column_index (filter isalpha start)) (\<lambda>start_col_no.
               py_bind (column_index (filter isalpha end)) (\<lambda>end_col_no.
               py_bind (if filter (\<lambda>c. \<not> isalpha c) start \<noteq> []
                        then py_bind (to_int (filter (\<lambda>c. \<not> isalpha c) start)) (\<lambda>n. Inr (n - 1))
                        else Inr 0) (\<lambda>start_row_idx.
               py_bind (if filter (\<lambda>c. \<not> isalpha c) end \<noteq> []
                        then py_bind (to_int (filter (\<lambda>c. \<not> isalpha c) end)) (\<lambda>n. Inr (Some (n - 1)))
                        else Inr None) (\<lambda>end_row_idx.
               Inr (Some (start_col_no - 1), Some start_row_idx,
                    Some (end_col_no - 1), end_row_idx))))) of
        Inl e \<Rightarrow> (None, None, None, None) | Inr result \<Rightarrow> result)"
    unfolding parse_cell_range_def parse_cell_range_try_def sp split_cell_eq
    using colon by simp
  show ?thesis
  proof (cases "column_index (filter isalpha start)")
    case Inl
    then show ?thesis by (simp add: unfolded)
  next
    case sc: (Inr start_col)
    show ?thesis
    proof (cases "column_index (filter isalpha end)")
      case Inl
      then show ?thesis by (simp add: unfolded sc)
    next
      case ec: (Inr end_col)
      show ?thesis
        by (cases "to_int (filter (\<lambda>c. \<not> isalpha c) start)";
            cases "to_int (filter (\<lambda>c. \<not> isalpha c) end)")
           (simp_all add: unfolded sc ec)
    qed
  qed
qed

text \<open>
  C7. \<open>parse_cell_range\<close> maps \<open>B2:D10\<close> to start column 1, start row 1, end
  column 3, end row 9 (zero-based), and \<open>garbage\<close> to the all-absent tuple. Whatever the
  library functions do: an empty text or one without a colon gives the all-absent tuple;
  so does a text with two or more colons; and for \<open>start:end\<close> the result is all-absent
  as soon as a column text is rejected by \<open>column_index_from_string\<close> or a non-empty row
  text is rejected by \<open>int\<close>, and otherwise the two column numbers less one, the start
  row less one or 0 when it is absent, and the end row less one or the absent value when
  it is absent. The function returns a tuple in every case: it raises no exception.
\<close>

theorem parse_cell_range_cases:
  "parse_cell_range ascii_isalpha column_index_from_string py_int ''B2:D10''
      = (Some 1, Some 1, Some 3, Some 9)
   \<and> parse_cell_range ascii_isalpha column_index_from_string py_int ''garbage''
      = (None, None, None, None)
   \<and> (range_spec = [] \<or> CHR '':'' \<notin> set range_spec \<longrightarrow>
        parse_cell_range isalpha column_index to_int range_spec = (None, None, None, None))
   \<and> (2 \<le> count_list range_spec CHR '':'' \<longrightarrow>
        parse_cell_range isalpha column_index to_int range_spec = (None, None, None, None))
   \<and> (CHR '':'' \<notin> set start \<and> CHR '':'' \<notin> set end \<longrightarrow>
        parse_cell_range isalpha column_index to_int (start @ '':'' @ end) =
          (case (column_index (filter isalpha start),
                 column_index (filter isalpha end),
                 if filter (\<lambda>c. \<not> isalpha c) start = [] then Inr 0
                 else map_sum id (\<lambda>n. n - 1) (to_int (filter (\<lambda>c. \<not> isalpha c) start)),
                 if filter (\<lambda>c. \<not> isalpha c) end = [] then Inr None
                 else map_sum id (\<lambda>n. Some (n - 1)) (to_int (filter (\<lambda>c. \<not> isalpha c) end))) of
             (Inr start_col, Inr end_col, Inr start_row, Inr end_row) \<Rightarrow>
                 (Some (start_col - 1), Some start_row, Some (end_col - 1), end_row)
           | _ \<Rightarrow> (None, None, None, None)))"
proof -
  have a: "parse_cell_range ascii_isalpha column_index_from_string py_int ''B2:D10''
      = (Some 1, Some 1, Some 3, Some 9)"
    by code_simp
  have b: "parse_cell_range ascii_isalpha column_index_from_string py_int ''garbage''
      = (None, None, None, None)"
    by code_simp
  have c: "parse_cell_range isalpha column_index to_int range_spec = (None, None, None, None)"
    if "range_spec = [] \<or> CHR '':'' \<notin> set range_spec"
    using that by (auto simp: parse_cell_range_def)
  have d: "parse_cell_range isalpha column_index to_int range_spec = (None, None, None, None)"
    if "2 \<le> count_list range_spec CHR '':''"
    using that by (simp add: parse_cell_range_def parse_cell_range_try_many)
  show ?thesis
    using a b c d parse_cell_range_two [of start "end" isalpha column_index to_int]
    by (intro conjI impI) blast+
qed

theorem parse_cell_range_cases_witness:
  "CHR '':'' \<notin> set ''A'' \<and> CHR '':'' \<notin> set ''C7'' \<and> 2 \<le> count_list ''A1:B2:C3'' CHR '':''
   \<and> parse_cell_range ascii_isalpha column_index_from_string py_int ''A:C7''
        = (Some 0, Some 0, Some 2, Some 6)
   \<and> parse_cell_range ascii_isalpha column_index_from_string py_int ''A1:B2:C3''
        = (None, None, None, None)
   \<and> parse_cell_range ascii_isalpha column_index_from_string py_int ''C7''
        = (None, None, None, None)"
proof -
  let ?rhs = "case (column_index_from_string (filter ascii_isalpha ''A''),
                 column_index_from_string (filter ascii_isalpha ''C7''),
                 if filter (\<lambda>c. \<not> ascii_isalpha c) ''A'' = [] then Inr 0
                 else map_sum id (\<lambda>n. n - 1) (py_int (filter (\<lambda>c. \<not> ascii_isalpha c) ''A'')),
                 if filter (\<lambda>c. \<not> ascii_isalpha c) ''C7'' = [] then Inr None
                 else map_sum id (\<lambda>n. Some (n - 1)) (py_int (filter (\<lambda>c. \<not> ascii_isalpha c) ''C7''))) of
             (Inr start_col, Inr end_col, Inr start_row, Inr end_row) \<Rightarrow>
                 (Some (start_col - 1), Some start_row, Some (end_col - 1), end_row)
           | _ \<Rightarrow> (None, None, None, None)"
  have h1: "CHR '':'' \<notin> set ''A'' \<and> CHR '':'' \<notin> set ''C7''" by simp
  have h2: "2 \<le> count_list ''A1:B2:C3'' CHR '':''" by simp
  have h3: "''C7'' = [] \<or> CHR '':'' \<notin> set ''C7''" by simp
  have rhs: "?rhs = (Some 0, Some 0, Some 2, Some 6)" by code_simp
  have app: "''A'' @ '':'' @ ''C7'' = ''A:C7''" by simp
  from parse_cell_range_cases
    [of "''C7''" ascii_isalpha column_index_from_string py_int "''A''" "''C7''"] h1 h3
  have 1: "parse_cell_range ascii_isalpha column_index_from_string py_int ''C7''
        = (None, None, None, None)"
    and 3: "parse_cell_range ascii_isalpha column_index_from_string py_int (''A'' @ '':'' @ ''C7'')
        = ?rhs"
    by blast+
  from parse_cell_range_cases
    [of "''A1:B2:C3''" ascii_isalpha column_index_from_string py_int "''A''" "''C7''"] h2
  have 2: "parse_cell_range ascii_isalpha column_index_from_string py_int ''A1:B2:C3''
        = (None, None, None, None)"
    by blast
  from 3 have 3: "parse_cell_range ascii_isalpha column_index_from_string py_int ''A:C7''
        = (Some 0, Some 0, Some 2, Some 6)"
    unfolding rhs app .
  from 1 2 3 h1 h2 show ?thesis by blast
qed

section \<open>Merging pair weights\<close>



lemma last_rank_listing_Nil [simp]: "last_rank_listing [] eligible p = None"
  by (simp add: last_rank_listing_def)



lemma last_custom_weight_Nil [simp]: "last_custom_weight [] p = None"
  by (simp add: last_custom_weight_def)







section \<open>The top-N solve\<close>

lemma py_index_error: "py_index xs i = Inl e \<Longrightarrow> e = IndexError"
  by (simp add: py_index_def split: if_splits)

lemma py_for_error:
  assumes "py_for xs body s = Inl e"
    and "\<And>x s e. x \<in> set xs \<Longrightarrow> body x s = Inl e \<Longrightarrow> Q e"
  shows "Q e"
  using assms
proof (induction xs arbitrary: s)
  case Nil
  then show ?case by simp
next
  case (Cons x xs)
  show ?case
  proof (cases "body x s")
    case (Inl e')
    with Cons.prems(1) have "e' = e" by simp
    with Inl Cons.prems(2) [of x s e] show ?thesis by simp
  next
    case (Inr s')
    with Cons.prems(1) have "py_for xs body s' = Inl e" by simp
    then show ?thesis using Cons.prems(2) by (intro Cons.IH [of s']) auto
  qed
qed

lemma py_for_succeeds:
  assumes "\<And>x s. x \<in> set xs \<Longrightarrow> \<exists>s'. body x s = Inr s'"
  shows "\<exists>s'. py_for xs body s = Inr s'"
  using assms
proof (induction xs arbitrary: s)
  case Nil
  then show ?case by simp
next
  case (Cons x xs)
  from Cons.prems [of x s] obtain s' where "body x s = Inr s'" by auto
  with Cons.IH [of s'] Cons.prems show ?case by simp
qed

lemma weighted_pairs_error: "weighted_pairs pair_weights = Inl e \<Longrightarrow> e = IndexError"
  unfolding weighted_pairs_def
  by (erule py_for_error)
     (auto simp: py_bind_def split: sum.splits dest: py_index_error)

lemma weighted_pairs_succeeds:
  assumes "\<forall>(p, w) \<in> set pair_weights. \<not> negligible w \<longrightarrow> 2 \<le> length p"
  shows "\<exists>pairs. weighted_pairs pair_weights = Inr pairs"
  unfolding weighted_pairs_def
proof (rule py_for_succeeds)
  fix x :: "string list \<times> real" and s :: "(string \<times> string \<times> real) list"
  assume "x \<in> set (filter (\<lambda>(p, w). \<not> negligible w) pair_weights)"
  with assms have "2 \<le> length (fst x)" by (cases x) auto
  then have "py_index (fst x) 0 = Inr (fst x ! 0)" "py_index (fst x) 1 = Inr (fst x ! 1)"
    by (auto simp: py_index_def)
  then show "\<exists>s'. (case x of (p, w) \<Rightarrow> \<lambda>acc.
          py_bind (py_index p 0) (\<lambda>a.
          py_bind (py_index p 1) (\<lambda>b. Inr (acc @ [(a, b, w)])))) s = Inr s'"
    by (cases x) simp
qed

lemma build_assignment_error: "build_assignment people P assign_idx = Inl e \<Longrightarrow> e = KeyError"
  unfolding build_assignment_def
  by (erule py_for_error) (auto split: option.splits)

lemma solve_loop_stop:
  "response_status (solver model) \<notin> {OPTIMAL, FEASIBLE} \<Longrightarrow>
   solve_loop solver people P S (k # ks) model results calls = (Inr results, model, Suc calls)"
  by (auto simp: Let_def)

lemma solve_loop_fail:
  "response_status (solver model) \<in> {OPTIMAL, FEASIBLE} \<Longrightarrow>
   build_assignment people P (extract_assign_idx (response_value (solver model)) P S) = Inl e \<Longrightarrow>
   solve_loop solver people P S (k # ks) model results calls = (Inl e, model, Suc calls)"
  by (auto simp: Let_def)

lemma solve_loop_step:
  "response_status (solver model) \<in> {OPTIMAL, FEASIBLE} \<Longrightarrow>
   build_assignment people P (extract_assign_idx (response_value (solver model)) P S) = Inr a \<Longrightarrow>
   solve_loop solver people P S (k # ks) model results calls =
     solve_loop solver people P S ks
       (model\<lparr>model_constraints := model_constraints model
           @ [no_good_cut P (extract_assign_idx (response_value (solver model)) P S)]\<rparr>)
       (results @ [SeatAssignmentResult a
           (if model_objective model \<noteq> None then response_objective (solver model) else 0)
           (response_status (solver model))])
       (Suc calls)"
  by (auto simp: Let_def)

declare solve_loop.simps(2) [simp del]

lemma solve_loop_error:
  "solve_loop solver people P S ks model results calls = (Inl e, model', calls') \<Longrightarrow> e = KeyError"
proof (induction ks arbitrary: model results calls)
  case Nil
  then show ?case by simp
next
  case (Cons k ks)
  show ?case
  proof (cases "response_status (solver model) \<in> {OPTIMAL, FEASIBLE}")
    case False
    with Cons.prems show ?thesis by (simp add: solve_loop_stop)
  next
    case True
    show ?thesis
    proof (cases "build_assignment people P
                    (extract_assign_idx (response_value (solver model)) P S)")
      case (Inl e')
      with True Cons.prems have "e' = e" by (simp add: solve_loop_fail)
      with Inl show ?thesis by (simp add: build_assignment_error)
    next
      case (Inr a)
      from Cons.prems show ?thesis
        unfolding solve_loop_step [where solver = solver and model = model, OF True Inr]
        by (rule Cons.IH)
    qed
  qed
qed

text \<open>
  When every key of non-negligible weight names at least two people, the seat check
  decides: with more people than seats the function raises ValueError, no constraint
  model has been created and the solver has not been called; with at most as many people
  as seats it does not raise ValueError.
\<close>

lemma oversubscription_raises_value_error:
  assumes "\<forall>(p, w) \<in> set pair_weights. \<not> negligible w \<longrightarrow> 2 \<le> length p"
  shows "(length seats < length people \<longrightarrow>
            solve_top_n_assignments solver people seats pair_weights oriented_edges top_n
              = (Inl ValueError, None, 0))
       \<and> (length people \<le> length seats \<longrightarrow>
            fst (solve_top_n_assignments solver people seats pair_weights oriented_edges top_n)
              \<noteq> Inl ValueError)
       \<and> solve_top_n_assignments solver [''A'', ''B'', ''C'', ''D'', ''E'']
            [(0, 0), (0, 1), (1, 0), (1, 1)] [] [] 3 = (Inl ValueError, None, 0)"
proof -
  from weighted_pairs_succeeds [OF assms]
  obtain pairs where wp: "weighted_pairs pair_weights = Inr pairs" ..
  have over: "solve_top_n_assignments solver people seats pair_weights oriented_edges top_n
              = (Inl ValueError, None, 0)" if "length seats < length people"
    using that by (simp add: solve_top_n_assignments_def wp)
  have fits: "fst (solve_top_n_assignments solver people seats pair_weights oriented_edges top_n)
              \<noteq> Inl ValueError" if "length people \<le> length seats"
  proof
    assume v: "fst (solve_top_n_assignments solver people seats pair_weights oriented_edges top_n)
                 = Inl ValueError"
    obtain outcome final_model calls where
      l: "solve_loop solver people (int (length people)) (int (length seats)) (py_range top_n)
            (build_model (int (length people)) (int (length seats))
               (objective_terms (seat_to_idx seats)
                  (weighted_idx_pairs (name_to_idx people) pairs) oriented_edges)) [] 0
          = (outcome, final_model, calls)"
      by (rule prod_cases3)
    with v that have "outcome = Inl ValueError"
      by (simp add: solve_top_n_assignments_def wp Let_def)
    with l solve_loop_error show False by blast
  qed
  have ex: "solve_top_n_assignments solver [''A'', ''B'', ''C'', ''D'', ''E'']
            [(0, 0), (0, 1), (1, 0), (1, 1)] [] [] 3 = (Inl ValueError, None, 0)"
    by (simp add: solve_top_n_assignments_def weighted_pairs_def)
  from over fits ex show ?thesis by blast
qed


section \<open>Distinct plans\<close>

lemma extract_fold:
  "fold (\<lambda>i assign_idx.
             case find (\<lambda>s. val (X i s)) ss of
               None \<Rightarrow> assign_idx
             | Some s \<Rightarrow> assign_idx(i \<mapsto> s)) is m i
     = (if i \<in> set is
        then (case find (\<lambda>s. val (X i s)) ss of None \<Rightarrow> m i | Some s \<Rightarrow> Some s)
        else m i)"
  by (induction "is" arbitrary: m) (auto split: option.splits)

lemma extract_assign_idx_eq:
  "extract_assign_idx val P S i =
     (if i \<in> set (py_range P) then find (\<lambda>s. val (X i s)) (py_range S) else None)"
  unfolding extract_assign_idx_def extract_fold by (simp split: option.splits)

lemma extract_assign_idx_value:
  "extract_assign_idx val P S i = Some s \<Longrightarrow> val (X i s)"
  by (auto simp: extract_assign_idx_eq find_Some_iff split: if_splits)

lemma py_for_app:
  "py_for (xs @ ys) body s = py_bind (py_for xs body s) (py_for ys body)"
  by (induction xs arbitrary: s) (simp_all add: py_bind_def split: sum.splits)

lemma build_assignment_loop:
  assumes "py_for is (\<lambda>i a. case assign_idx i of
                 None \<Rightarrow> Inl KeyError
               | Some s \<Rightarrow> Inr (a(f i \<mapsto> s))) a0 = Inr a"
    and "inj_on f (set is)"
  shows "\<forall>i \<in> set is. assign_idx i \<noteq> None \<and> a (f i) = assign_idx i"
  using assms
proof (induction "is" arbitrary: a rule: rev_induct)
  case Nil
  then show ?case by simp
next
  case (snoc j js)
  let ?body = "\<lambda>i a. case assign_idx i of
                 None \<Rightarrow> Inl KeyError
               | Some s \<Rightarrow> Inr (a(f i \<mapsto> s))"
  from snoc.prems(1) obtain a1 where a1: "py_for js ?body a0 = Inr a1"
    and last: "?body j a1 = Inr a"
    by (auto simp: py_for_app py_bind_def split: sum.splits)
  from last obtain s where s: "assign_idx j = Some s" and a: "a = a1(f j \<mapsto> s)"
    by (auto split: option.splits)
  from snoc.prems(2) have inj: "inj_on f (set js)" by (simp add: inj_on_def)
  from snoc.IH [OF a1 inj] have old: "\<forall>i \<in> set js. assign_idx i \<noteq> None \<and> a1 (f i) = assign_idx i" .
  show ?case
  proof
    fix i assume i: "i \<in> set (js @ [j])"
    show "assign_idx i \<noteq> None \<and> a (f i) = assign_idx i"
    proof (cases "i = j")
      case True
      then show ?thesis by (simp add: s a)
    next
      case False
      with i have ij: "i \<in> set js" by simp
      with snoc.prems(2) False have "f i \<noteq> f j" by (auto simp: inj_on_def)
      with old ij show ?thesis by (simp add: a)
    qed
  qed
qed

lemma inj_on_people:
  assumes "distinct people"
  shows "inj_on (\<lambda>i. people ! nat i) (set (py_range (int (length people))))"
  using assms by (auto simp: inj_on_def nth_eq_iff_index_eq nat_less_iff)

lemma build_assignment_entries:
  assumes "build_assignment people (int (length people)) assign_idx = Inr a"
    and "distinct people"
  shows "\<forall>i \<in> set (py_range (int (length people))).
           assign_idx i \<noteq> None \<and> a (people ! nat i) = assign_idx i"
  using build_assignment_loop [OF assms(1) [unfolded build_assignment_def] inj_on_people [OF assms(2)]] .

lemma build_assignment_succeeds:
  assumes "\<forall>i \<in> set (py_range P). assign_idx i \<noteq> None"
  shows "\<exists>a. build_assignment people P assign_idx = Inr a"
  unfolding build_assignment_def
  by (rule py_for_succeeds) (use assms in \<open>auto split: option.splits\<close>)

lemma sum_of_all_true: "\<forall>x \<in> set xs. v x \<Longrightarrow> sum_of v xs = int (length xs)"
  by (induction xs) (simp_all add: sum_of_def)

lemma sum_of_none_true: "\<forall>x \<in> set xs. \<not> v x \<Longrightarrow> sum_of v xs = 0"
  by (induction xs) (simp_all add: sum_of_def)

lemma cut_excludes:
  assumes "satisfies val (Sum_le (map (\<lambda>i. X i (f i)) (py_range P)) (P - 1))"
    and "\<forall>i \<in> set (py_range P). val (X i (g i))"
    and "0 \<le> P"
  shows "\<exists>i \<in> set (py_range P). f i \<noteq> g i"
proof (rule ccontr)
  assume "\<not> (\<exists>i \<in> set (py_range P). f i \<noteq> g i)"
  with assms(2) have "\<forall>x \<in> set (map (\<lambda>i. X i (f i)) (py_range P)). val x" by auto
  from sum_of_all_true [OF this] assms(3)
  have "sum_of val (map (\<lambda>i. X i (f i)) (py_range P)) = P" by simp
  with assms(1) show False by simp
qed

lemma exactly_one_some:
  assumes "satisfies val (Sum_eq (map (\<lambda>s. X i s) (py_range S)) 1)"
  shows "find (\<lambda>s. val (X i s)) (py_range S) \<noteq> None"
proof
  assume "find (\<lambda>s. val (X i s)) (py_range S) = None"
  then have "\<forall>x \<in> set (map (\<lambda>s. X i s) (py_range S)). \<not> val x"
    by (auto simp: find_None_iff)
  from sum_of_none_true [OF this] assms show False by simp
qed


lemma no_good_cut_result:
  assumes "build_assignment people (int (length people)) assign_idx = Inr a"
    and "distinct people"
  shows "no_good_cut (int (length people)) assign_idx
           = result_cut people (SeatAssignmentResult a obj st)"
  using build_assignment_entries [OF assms]
  by (simp add: no_good_cut_def result_cut_def SeatAssignmentResult_def)

lemma new_result_differs:
  assumes sound: "sound_solver solver"
    and ok: "response_status (solver model) \<in> {OPTIMAL, FEASIBLE}"
    and built: "build_assignment people (int (length people))
                  (extract_assign_idx (response_value (solver model)) (int (length people)) S) = Inr a"
    and dist: "distinct people"
    and cut: "result_cut people r \<in> set (model_constraints model)"
  shows "differ people r (SeatAssignmentResult a obj st)"
proof -
  let ?P = "int (length people)"
  let ?val = "response_value (solver model)"
  let ?ai = "extract_assign_idx ?val ?P S"
  from sound ok cut have sat: "satisfies ?val (result_cut people r)"
    unfolding sound_solver_def by blast
  from build_assignment_entries [OF built dist]
  have entries: "\<forall>i \<in> set (py_range ?P). ?ai i \<noteq> None \<and> a (people ! nat i) = ?ai i" .
  have "\<forall>i \<in> set (py_range ?P). ?val (X i (the (?ai i)))"
  proof
    fix i assume "i \<in> set (py_range ?P)"
    with entries obtain y where y: "?ai i = Some y" by blast
    from extract_assign_idx_value [OF this] y show "?val (X i (the (?ai i)))" by simp
  qed
  from cut_excludes [OF sat [unfolded result_cut_def] this]
  obtain i where i: "i \<in> set (py_range ?P)"
    and ne: "the (result_assignment r (people ! nat i)) \<noteq> the (?ai i)"
    by auto
  from i entries have "a (people ! nat i) = ?ai i" by blast
  with ne have "result_assignment r (people ! nat i) \<noteq> a (people ! nat i)" by auto
  moreover from i have "people ! nat i \<in> set people" by (simp add: nat_less_iff)
  ultimately show ?thesis
    by (auto simp: differ_def SeatAssignmentResult_def)
qed

lemma solve_loop_invariant:
  assumes "sound_solver solver" and "distinct people"
    and "\<forall>r \<in> set results. result_cut people r \<in> set (model_constraints model)"
    and "sorted_wrt (differ people) results"
    and "solve_loop solver people (int (length people)) S ks model results calls
           = (Inr rs, model', calls')"
  shows "sorted_wrt (differ people) rs
         \<and> (\<forall>r \<in> set rs. result_cut people r \<in> set (model_constraints model'))"
  using assms(3-5)
proof (induction ks arbitrary: model results calls)
  case Nil
  then show ?case by simp
next
  case (Cons k ks)
  let ?P = "int (length people)"
  let ?ai = "extract_assign_idx (response_value (solver model)) ?P S"
  show ?case
  proof (cases "response_status (solver model) \<in> {OPTIMAL, FEASIBLE}")
    case False
    with Cons.prems show ?thesis by (simp add: solve_loop_stop)
  next
    case True
    show ?thesis
    proof (cases "build_assignment people ?P ?ai")
      case (Inl e)
      with True Cons.prems(3) show ?thesis by (simp add: solve_loop_fail)
    next
      case (Inr a)
      let ?r = "SeatAssignmentResult a
           (if model_objective model \<noteq> None then response_objective (solver model) else 0)
           (response_status (solver model))"
      let ?model = "model\<lparr>model_constraints := model_constraints model @ [no_good_cut ?P ?ai]\<rparr>"
      have cut: "no_good_cut ?P ?ai = result_cut people ?r"
        by (rule no_good_cut_result [OF Inr assms(2)])
      have cuts: "\<forall>r \<in> set (results @ [?r]). result_cut people r \<in> set (model_constraints ?model)"
        using Cons.prems(1) cut by auto
      have "\<forall>r \<in> set results. differ people r ?r"
        using new_result_differs [OF assms(1) True Inr assms(2)] Cons.prems(1) by blast
      with Cons.prems(2) have sorted: "sorted_wrt (differ people) (results @ [?r])"
        by (simp add: sorted_wrt_append)
      from Cons.prems(3)
      have "solve_loop solver people ?P S ks ?model (results @ [?r]) (Suc calls)
              = (Inr rs, model', calls')"
        unfolding solve_loop_step [where solver = solver and model = model, OF True Inr] .
      from Cons.IH [OF cuts sorted this] show ?thesis .
    qed
  qed
qed

lemma solve_loop_returns:
  assumes "sound_solver solver"
    and "\<forall>i \<in> set (py_range P). Sum_eq (map (\<lambda>s. X i s) (py_range S)) 1 \<in> set (model_constraints model)"
  shows "\<exists>rs model' calls'. solve_loop solver people P S ks model results calls
           = (Inr rs, model', calls')"
  using assms(2)
proof (induction ks arbitrary: model results calls)
  case Nil
  then show ?case by simp
next
  case (Cons k ks)
  let ?val = "response_value (solver model)"
  let ?ai = "extract_assign_idx ?val P S"
  show ?case
  proof (cases "response_status (solver model) \<in> {OPTIMAL, FEASIBLE}")
    case False
    then show ?thesis by (simp add: solve_loop_stop)
  next
    case True
    have "\<forall>i \<in> set (py_range P). ?ai i \<noteq> None"
    proof
      fix i assume i: "i \<in> set (py_range P)"
      with Cons.prems have "Sum_eq (map (\<lambda>s. X i s) (py_range S)) 1 \<in> set (model_constraints model)"
        by blast
      with assms(1) True have "satisfies ?val (Sum_eq (map (\<lambda>s. X i s) (py_range S)) 1)"
        unfolding sound_solver_def by blast
      from exactly_one_some [OF this] i show "?ai i \<noteq> None"
        by (simp add: extract_assign_idx_eq)
    qed
    from build_assignment_succeeds [OF this]
    obtain a where a: "build_assignment people P ?ai = Inr a" ..
    let ?model = "model\<lparr>model_constraints := model_constraints model @ [no_good_cut P ?ai]\<rparr>"
    have "\<forall>i \<in> set (py_range P).
            Sum_eq (map (\<lambda>s. X i s) (py_range S)) 1 \<in> set (model_constraints ?model)"
      using Cons.prems by simp
    from Cons.IH [OF this] show ?thesis
      unfolding solve_loop_step [where solver = solver and model = model, OF True a] .
  qed
qed

lemma first_fit_solver_sound: "sound_solver (first_fit_solver candidates)"
  by (auto simp: sound_solver_def first_fit_solver_def list_all_iff find_Some_iff
           split: option.splits)

text \<open>
  C3, as stated, fails when a name is repeated in the people list: the assignment is a
  dictionary keyed by name, where the entry of a repeated name is overwritten, while the
  no-good cut is per index. With the people A and A on three seats and a sound solver that
  first seats them on 0 and 2 and then on 1 and 2, both results seat A on 2.
\<close>

theorem repeated_name_identical_results:
  "sound_solver (first_fit_solver [[X 0 0, X 1 2], [X 0 1, X 1 2]])
   \<and> map_sum id (map (seat_of ''A''))
        (fst (solve_top_n_assignments (first_fit_solver [[X 0 0, X 1 2], [X 0 1, X 1 2]])
           [''A'', ''A''] [(0, 0), (0, 1), (0, 2)] [] [] 2))
     = Inr [Some 2, Some 2]"
proof -
  have "map_sum id (map (seat_of ''A''))
        (fst (solve_top_n_assignments (first_fit_solver [[X 0 0, X 1 2], [X 0 1, X 1 2]])
           [''A'', ''A''] [(0, 0), (0, 1), (0, 2)] [] [] 2))
     = Inr [Some 2, Some 2]"
    by code_simp
  with first_fit_solver_sound show ?thesis by blast
qed

text \<open>
  C3, amended. Under the hypothesis that the solver only returns solutions satisfying all
  constraints of the model it is given, and for a people list without repeated names, the
  results of every returned list are pairwise distinct: any two of them seat at least one
  person differently. The reason is the no-good cut: the model left by the run contains,
  for every result, the constraint that the sum of the indicator variables of that
  result's person-to-seat combination is at most the person count less one, so every
  later solve had all earlier cuts in force. A list is returned whenever the people fit
  the seats and the weighted keys name two people.
\<close>

theorem top_n_results_pairwise_distinct:
  assumes "sound_solver solver" and "distinct people"
  shows "(\<forall>results final_model calls.
            solve_top_n_assignments solver people seats pair_weights oriented_edges top_n
              = (Inr results, final_model, calls) \<longrightarrow>
            (\<forall>i j. i < j \<and> j < length results \<longrightarrow>
               (\<exists>p \<in> set people. result_assignment (results ! i) p
                                  \<noteq> result_assignment (results ! j) p))
            \<and> (\<exists>model. final_model = Some model
                  \<and> (\<forall>r \<in> set results. result_cut people r \<in> set (model_constraints model))))
       \<and> ((\<forall>(p, w) \<in> set pair_weights. \<not> negligible w \<longrightarrow> 2 \<le> length p)
            \<and> length people \<le> length seats \<longrightarrow>
          (\<exists>results final_model calls.
             solve_top_n_assignments solver people seats pair_weights oriented_edges top_n
               = (Inr results, final_model, calls)))"
proof -
  have returned: "(\<forall>i j. i < j \<and> j < length results \<longrightarrow>
               (\<exists>p \<in> set people. result_assignment (results ! i) p
                                  \<noteq> result_assignment (results ! j) p))
            \<and> (\<exists>model. final_model = Some model
                  \<and> (\<forall>r \<in> set results. result_cut people r \<in> set (model_constraints model)))"
    if run: "solve_top_n_assignments solver people seats pair_weights oriented_edges top_n
              = (Inr results, final_model, calls)" for results final_model calls
  proof -
  from run obtain pairs where wp: "weighted_pairs pair_weights = Inr pairs"
    by (cases "weighted_pairs pair_weights") (simp_all add: solve_top_n_assignments_def)
  let ?model = "build_model (int (length people)) (int (length seats))
               (objective_terms (seat_to_idx seats)
                  (weighted_idx_pairs (name_to_idx people) pairs) oriented_edges)"
  from run have fits: "length people \<le> length seats"
    by (cases "length people \<le> length seats") (simp_all add: solve_top_n_assignments_def wp)
  obtain outcome model calls' where
    l: "solve_loop solver people (int (length people)) (int (length seats)) (py_range top_n)
          ?model [] 0 = (outcome, model, calls')"
    by (rule prod_cases3)
  with run fits have "outcome = Inr results" and fm: "final_model = Some model"
    by (simp_all add: solve_top_n_assignments_def wp Let_def)
  with l have "solve_loop solver people (int (length people)) (int (length seats))
      (py_range top_n) ?model [] 0 = (Inr results, model, calls')"
    by simp
  from solve_loop_invariant [OF assms _ _ this]
  have sorted: "sorted_wrt (differ people) results"
    and cuts: "\<forall>r \<in> set results. result_cut people r \<in> set (model_constraints model)"
    by simp_all
  from sorted have "\<forall>i j. i < j \<and> j < length results \<longrightarrow>
               (\<exists>p \<in> set people. result_assignment (results ! i) p
                                  \<noteq> result_assignment (results ! j) p)"
    by (simp add: sorted_wrt_iff_nth_less differ_def)
  moreover from fm cuts have "\<exists>model. final_model = Some model
                  \<and> (\<forall>r \<in> set results. result_cut people r \<in> set (model_constraints model))"
    by blast
  ultimately show ?thesis ..
  qed
  have returns: "\<exists>results final_model calls.
             solve_top_n_assignments solver people seats pair_weights oriented_edges top_n
               = (Inr results, final_model, calls)"
    if h: "(\<forall>(p, w) \<in> set pair_weights. \<not> negligible w \<longrightarrow> 2 \<le> length p)
            \<and> length people \<le> length seats"
  proof -
  from h obtain pairs where wp: "weighted_pairs pair_weights = Inr pairs"
    using weighted_pairs_succeeds by blast
  let ?model = "build_model (int (length people)) (int (length seats))
               (objective_terms (seat_to_idx seats)
                  (weighted_idx_pairs (name_to_idx people) pairs) oriented_edges)"
  have "\<forall>i \<in> set (py_range (int (length people))).
          Sum_eq (map (\<lambda>s. X i s) (py_range (int (length seats)))) 1
            \<in> set (model_constraints ?model)"
    by (auto simp: build_model_def)
  from solve_loop_returns [OF assms(1) this, of people "py_range top_n" "[]" 0]
  obtain rs model' calls' where
    "solve_loop solver people (int (length people)) (int (length seats)) (py_range top_n)
          ?model [] 0 = (Inr rs, model', calls')"
    by blast
  with h show ?thesis
    by (simp add: solve_top_n_assignments_def wp Let_def)
  qed
  show ?thesis
  proof (rule conjI)
    show "\<forall>results final_model calls.
            solve_top_n_assignments solver people seats pair_weights oriented_edges top_n
              = (Inr results, final_model, calls) \<longrightarrow>
            (\<forall>i j. i < j \<and> j < length results \<longrightarrow>
               (\<exists>p \<in> set people. result_assignment (results ! i) p
                                  \<noteq> result_assignment (results ! j) p))
            \<and> (\<exists>model. final_model = Some model
                  \<and> (\<forall>r \<in> set results. result_cut people r \<in> set (model_constraints model)))"
      by (intro allI impI) (rule returned)
    show "(\<forall>(p, w) \<in> set pair_weights. \<not> negligible w \<longrightarrow> 2 \<le> length p)
            \<and> length people \<le> length seats \<longrightarrow>
          (\<exists>results final_model calls.
             solve_top_n_assignments solver people seats pair_weights oriented_edges top_n
               = (Inr results, final_model, calls))"
      by (intro impI) (rule returns)
  qed
qed


theorem top_n_results_pairwise_distinct_witness:
  "sound_solver (first_fit_solver [[X 0 0, X 1 1], [X 0 1, X 1 0]])
   \<and> distinct [''A'', ''B'']
   \<and> (\<exists>results final_model calls.
        solve_top_n_assignments (first_fit_solver [[X 0 0, X 1 1], [X 0 1, X 1 0]])
          [''A'', ''B''] [(0, 0), (0, 1)] [] [] 3 = (Inr results, final_model, calls)
        \<and> length results = 2
        \<and> (\<exists>p \<in> set [''A'', ''B''].
              result_assignment (results ! 0) p \<noteq> result_assignment (results ! 1) p))"
proof -
  let ?solver = "first_fit_solver [[X 0 0, X 1 1], [X 0 1, X 1 0]]"
  let ?run = "solve_top_n_assignments ?solver [''A'', ''B''] [(0, 0), (0, 1)] [] [] 3"
  have sound: "sound_solver ?solver" by (rule first_fit_solver_sound)
  have dist: "distinct [''A'', ''B'']" by simp
  have len: "map_sum id length (fst ?run) = Inr 2" by code_simp
  obtain outcome final_model calls where run: "?run = (outcome, final_model, calls)"
    by (rule prod_cases3)
  with len obtain results where res: "outcome = Inr results" and two: "length results = 2"
    by (cases outcome) auto
  from top_n_results_pairwise_distinct [OF sound dist, of "[(0, 0), (0, 1)]" "[]" "[]" 3]
    run res
  have "\<forall>i j. i < j \<and> j < length results \<longrightarrow>
               (\<exists>p \<in> set [''A'', ''B'']. result_assignment (results ! i) p
                                  \<noteq> result_assignment (results ! j) p)"
    by blast
  with two have "\<exists>p \<in> set [''A'', ''B''].
              result_assignment (results ! 0) p \<noteq> result_assignment (results ! 1) p"
    by (metis One_nat_def lessI less_2_cases_iff zero_less_one)
  with sound dist run res two show ?thesis by blast
qed

section \<open>Satisfaction metrics\<close>

lemma first_index_None: "first_index xs x = None \<longleftrightarrow> x \<notin> set xs"
  by (induction xs) auto

lemma adjacent_step:
  "(case py_bind (py_list_index seats A) (\<lambda>idx1.
            py_bind (py_list_index seats B) (\<lambda>idx2.
            Inr (insert {idx1, idx2} acc))) of
      Inl e \<Rightarrow> acc
    | Inr adj' \<Rightarrow> adj')
   = acc \<union> (if A \<in> set seats \<and> B \<in> set seats
       then {{int (the (first_index seats A)), int (the (first_index seats B))}} else {})"
proof -
  have mem: "A \<in> set seats \<longleftrightarrow> first_index seats A \<noteq> None"
    "B \<in> set seats \<longleftrightarrow> first_index seats B \<noteq> None"
    by (simp_all add: first_index_None)
  show ?thesis
    unfolding mem
    by (cases "first_index seats A"; cases "first_index seats B")
       (simp_all add: py_list_index_def)
qed

lemma resolved_adjacency_Nil [simp]: "resolved_adjacency seats [] = {}"
  by (simp add: resolved_adjacency_def)

lemma resolved_adjacency_Cons:
  "resolved_adjacency seats ((A, B) # es) =
      (if A \<in> set seats \<and> B \<in> set seats
       then {{int (the (first_index seats A)), int (the (first_index seats B))}} else {})
      \<union> resolved_adjacency seats es"
  unfolding resolved_adjacency_def by auto

lemma adjacent_seats_fold:
  "fold (\<lambda>((c1, r1), (c2, r2)) adj.
             case py_bind (py_list_index seats (c1, r1)) (\<lambda>idx1.
                  py_bind (py_list_index seats (c2, r2)) (\<lambda>idx2.
                  Inr (insert {idx1, idx2} adj))) of
               Inl e \<Rightarrow> adj
             | Inr adj' \<Rightarrow> adj') es acc
     = acc \<union> resolved_adjacency seats es"
proof (induction es arbitrary: acc)
  case Nil
  then show ?case by simp
next
  case (Cons e es)
  let ?f = "\<lambda>((c1, r1), (c2, r2)) adj.
             case py_bind (py_list_index seats (c1, r1)) (\<lambda>idx1.
                  py_bind (py_list_index seats (c2, r2)) (\<lambda>idx2.
                  Inr (insert {idx1, idx2} adj))) of
               Inl e \<Rightarrow> adj
             | Inr adj' \<Rightarrow> adj'"
  obtain c1 r1 c2 r2 where e: "e = ((c1, r1), (c2, r2))" by (cases e) auto
  have fe: "?f e acc = acc \<union> (if (c1, r1) \<in> set seats \<and> (c2, r2) \<in> set seats
       then {{int (the (first_index seats (c1, r1))), int (the (first_index seats (c2, r2)))}}
       else {})"
    unfolding e prod.case by (rule adjacent_step)
  have "fold ?f (e # es) acc = fold ?f es (?f e acc)" by simp
  also have "\<dots> = ?f e acc \<union> resolved_adjacency seats es" by (rule Cons.IH)
  also have "\<dots> = (acc \<union> (if (c1, r1) \<in> set seats \<and> (c2, r2) \<in> set seats
       then {{int (the (first_index seats (c1, r1))), int (the (first_index seats (c2, r2)))}}
       else {})) \<union> resolved_adjacency seats es"
    by (simp only: fe)
  also have "\<dots> = acc \<union> resolved_adjacency seats (e # es)"
    by (simp only: e resolved_adjacency_Cons Un_assoc)
  finally show ?case .
qed

lemma adjacent_seats_eq: "adjacent_seats seats es = resolved_adjacency seats es"
  unfolding adjacent_seats_def adjacent_seats_fold by simp

lemma satisfied_loop_acc:
  assumes "\<forall>p \<in> set pairs. length p = 2"
  shows "py_for pairs
       (\<lambda>pair (satisfied_people, satisfied_pairs).
          case pair of
            [person1, person2] \<Rightarrow>
              if person1 \<notin> dom a \<or> person2 \<notin> dom a
              then Inr (satisfied_people, satisfied_pairs)
              else if {the (a person1), the (a person2)} \<in> adj
              then Inr (insert person2 (insert person1 satisfied_people), satisfied_pairs + 1)
              else Inr (satisfied_people, satisfied_pairs)
          | _ \<Rightarrow> Inl ValueError)
       (sp, n)
     = Inr (sp \<union> \<Union> (set ` {p \<in> set pairs. set p \<subseteq> dom a \<and> (\<lambda>q. the (a q)) ` set p \<in> adj}),
            n + length (filter (\<lambda>p. set p \<subseteq> dom a \<and> (\<lambda>q. the (a q)) ` set p \<in> adj) pairs))"
  using assms
proof (induction pairs arbitrary: sp n)
  case Nil
  then show ?case by simp
next
  case (Cons p pairs)
  let ?sat = "\<lambda>p. set p \<subseteq> dom a \<and> (\<lambda>q. the (a q)) ` set p \<in> adj"
  let ?body = "\<lambda>pair (satisfied_people, satisfied_pairs).
          case pair of
            [person1, person2] \<Rightarrow>
              if person1 \<notin> dom a \<or> person2 \<notin> dom a
              then Inr (satisfied_people, satisfied_pairs)
              else if {the (a person1), the (a person2)} \<in> adj
              then Inr (insert person2 (insert person1 satisfied_people), satisfied_pairs + (1::nat))
              else Inr (satisfied_people, satisfied_pairs)
          | _ \<Rightarrow> Inl ValueError"
  from Cons.prems obtain p1 p2 where p: "p = [p1, p2]"
    by (cases p; cases "tl p") auto
  from Cons.prems have rest: "\<forall>p \<in> set pairs. length p = 2" by simp
  have satp: "?sat p \<longleftrightarrow> p1 \<in> dom a \<and> p2 \<in> dom a \<and> {the (a p1), the (a p2)} \<in> adj"
    by (simp add: p)
  show ?case
  proof (cases "?sat p")
    case True
    with satp have "?body p (sp, n) = Inr (insert p2 (insert p1 sp), n + 1)"
      by (simp add: p)
    then have "py_for (p # pairs) ?body (sp, n) = py_for pairs ?body (insert p2 (insert p1 sp), n + 1)"
      by simp
    also have "\<dots> = Inr (insert p2 (insert p1 sp) \<union> \<Union> (set ` {p \<in> set pairs. ?sat p}),
            n + 1 + length (filter ?sat pairs))"
      by (rule Cons.IH [OF rest])
    also have "insert p2 (insert p1 sp) \<union> \<Union> (set ` {p \<in> set pairs. ?sat p})
                 = sp \<union> \<Union> (set ` {q \<in> set (p # pairs). ?sat q})"
    proof -
      have "{q \<in> set (p # pairs). ?sat q} = insert p {q \<in> set pairs. ?sat q}"
        using True by auto
      then show ?thesis by (simp add: p insert_commute)
    qed
    also have "n + 1 + length (filter ?sat pairs) = n + length (filter ?sat (p # pairs))"
      using True by simp
    finally show ?thesis .
  next
    case False
    with satp have "?body p (sp, n) = Inr (sp, n)"
      by (auto simp: p)
    then have "py_for (p # pairs) ?body (sp, n) = py_for pairs ?body (sp, n)"
      by simp
    also have "\<dots> = Inr (sp \<union> \<Union> (set ` {p \<in> set pairs. ?sat p}), n + length (filter ?sat pairs))"
      by (rule Cons.IH [OF rest])
    also have "\<Union> (set ` {p \<in> set pairs. ?sat p}) = \<Union> (set ` {q \<in> set (p # pairs). ?sat q})"
    proof -
      have "{q \<in> set (p # pairs). ?sat q} = {q \<in> set pairs. ?sat q}"
        using False by auto
      then show ?thesis by simp
    qed
    also have "length (filter ?sat pairs) = length (filter ?sat (p # pairs))"
      using False by simp
    finally show ?thesis .
  qed
qed

lemma satisfied_loop_eq:
  assumes "\<forall>p \<in> set pairs. length p = 2"
  shows "satisfied_loop a (adjacent_seats seats es) pairs
     = Inr (\<Union> (set ` {p \<in> set pairs. pair_satisfied a seats es p}),
            length (filter (pair_satisfied a seats es) pairs))"
  unfolding satisfied_loop_def satisfied_loop_acc [OF assms] adjacent_seats_eq pair_satisfied_def
  by simp


lemma satisfied_pairs_card:
  assumes "distinct (map set pairs)"
  shows "length (filter sat pairs) = card (set ` {p \<in> set pairs. sat p})"
proof -
  from assms have "distinct (map set (filter sat pairs))"
    by (rule distinct_map_filter)
  then have "card (set (map set (filter sat pairs))) = length (map set (filter sat pairs))"
    by (rule distinct_card)
  moreover have "set (map set (filter sat pairs)) = set ` {p \<in> set pairs. sat p}"
    by auto
  ultimately show ?thesis by simp
qed

text \<open>
  C5, as stated, fails for a positive pair that is not a pair: unpacking
  \<open>person1, person2 = list(pair)\<close> of a key of one name raises ValueError, and no tuple
  is returned.
\<close>

theorem one_name_pair_raises_value_error:
  "compute_satisfaction_metrics [''A'' \<mapsto> 0] [''A''] [(0, 0)] [[''A'']] [] None = Inl ValueError"
  by (simp add: compute_satisfaction_metrics_def satisfied_loop_def)

text \<open>
  C5, amended. For positive pairs and rank-1 pairs of exactly two names each,
  \<open>compute_satisfaction_metrics\<close> returns the 4-tuple of: the number of people in the union
  of the satisfied pairs; the number of people in the union of all supplied positive
  pairs; the number of satisfied positive pairs (the size of their set, the supplied
  pairs being a set); and the first-preference rate, which is the float
  \<open>(k / n) * 100\<close> for the number \<open>k\<close> of satisfied rank-1 willing pairs among the \<open>n\<close> of
  them, and \<open>0.0\<close> when the rank map is absent, has no rank 1, or rank 1 is empty. A pair
  is satisfied iff both members are in the assignment and their seat indices form an
  adjacency pair resolved from the edge list, edges with a coordinate outside the seat
  list being skipped. On the 2 by 2 grid without diagonals, with A and B on seats
  \<open>(0,0)\<close> and \<open>(0,1)\<close> and the one positive pair A, B, the first three components are
  \<open>(2, 2, 1)\<close>.
\<close>

theorem compute_satisfaction_metrics_counts:
  assumes "\<forall>p \<in> set positive_pairs. length p = 2"
    and "\<forall>by_rank ps. willing_pairs_by_rank = Some by_rank \<and> by_rank 1 = Some ps
           \<longrightarrow> (\<forall>p \<in> set ps. length p = 2)"
  shows "compute_satisfaction_metrics assignment people seats positive_pairs oriented_edges
           willing_pairs_by_rank =
         Inr (card (\<Union> (set ` {p \<in> set positive_pairs.
                                  pair_satisfied assignment seats oriented_edges p})),
              card (\<Union> (set ` set positive_pairs)),
              length (filter (pair_satisfied assignment seats oriented_edges) positive_pairs),
              (case willing_pairs_by_rank of
                 None \<Rightarrow> Float_zero
               | Some by_rank \<Rightarrow>
                  (case by_rank 1 of
                     None \<Rightarrow> Float_zero
                   | Some ps \<Rightarrow>
                       if ps = [] then Float_zero
                       else Float_times
                              (True_div
                                 (length (filter (pair_satisfied assignment seats oriented_edges) ps))
                                 (length ps)) 100)))
       \<and> (distinct (map set positive_pairs) \<longrightarrow>
            length (filter (pair_satisfied assignment seats oriented_edges) positive_pairs)
              = card (set ` {p \<in> set positive_pairs.
                               pair_satisfied assignment seats oriented_edges p}))
       \<and> (\<exists>seats edges.
            generate_seats 2 [2, 2] = Inr seats \<and>
            generate_adjacent_edges 2 [2, 2] False None = Inr edges \<and>
            compute_satisfaction_metrics
              [''A'' \<mapsto> 0, ''B'' \<mapsto> 1, ''C'' \<mapsto> 2, ''D'' \<mapsto> 3] [''A'', ''B'', ''C'', ''D'']
              seats [[''A'', ''B'']] edges (Some [1 \<mapsto> [[''A'', ''B'']]])
            = Inr (2, 2, 1, Float_times (True_div 1 1) 100))"
proof -
  let ?sat = "pair_satisfied assignment seats oriented_edges"
  have first: "satisfied_loop assignment (adjacent_seats seats oriented_edges) positive_pairs
     = Inr (\<Union> (set ` {p \<in> set positive_pairs. ?sat p}), length (filter ?sat positive_pairs))"
    by (rule satisfied_loop_eq [OF assms(1)])
  have total: "(if positive_pairs \<noteq> [] then card (\<Union> (set ` set positive_pairs)) else 0)
                 = card (\<Union> (set ` set positive_pairs))"
    by simp
  have main: "compute_satisfaction_metrics assignment people seats positive_pairs oriented_edges
           willing_pairs_by_rank =
         Inr (card (\<Union> (set ` {p \<in> set positive_pairs. ?sat p})),
              card (\<Union> (set ` set positive_pairs)),
              length (filter ?sat positive_pairs),
              (case willing_pairs_by_rank of
                 None \<Rightarrow> Float_zero
               | Some by_rank \<Rightarrow>
                  (case by_rank 1 of
                     None \<Rightarrow> Float_zero
                   | Some ps \<Rightarrow>
                       if ps = [] then Float_zero
                       else Float_times (True_div (length (filter ?sat ps)) (length ps)) 100)))"
  proof (cases willing_pairs_by_rank)
    case None
    then show ?thesis
      by (simp add: compute_satisfaction_metrics_def first total del: Union_iff)
  next
    case (Some by_rank)
    show ?thesis
    proof (cases "by_rank 1")
      case None
      with Some show ?thesis
        by (simp add: compute_satisfaction_metrics_def first total)
    next
      case ps: (Some ps)
      with Some assms(2) have "\<forall>p \<in> set ps. length p = 2" by blast
      from satisfied_loop_eq [OF this]
      have "satisfied_loop assignment (adjacent_seats seats oriented_edges) ps
        = Inr (\<Union> (set ` {p \<in> set ps. ?sat p}), length (filter ?sat ps))" .
      with Some ps show ?thesis
        by (simp add: compute_satisfaction_metrics_def first total)
    qed
  qed
  have s: "generate_seats 2 [2, 2] = Inr [(0,0), (0,1), (1,0), (1,1)]"
    by code_simp
  have e: "generate_adjacent_edges 2 [2, 2] False None =
      Inr [((0, 0), (1, 0)), ((1, 0), (0, 0)), ((0, 0), (0, 1)), ((0, 1), (0, 0)),
           ((0, 1), (1, 1)), ((1, 1), (0, 1)), ((1, 0), (1, 1)), ((1, 1), (1, 0))]"
    by code_simp
  have m: "compute_satisfaction_metrics
              [''A'' \<mapsto> 0, ''B'' \<mapsto> 1, ''C'' \<mapsto> 2, ''D'' \<mapsto> 3] [''A'', ''B'', ''C'', ''D'']
              [(0,0), (0,1), (1,0), (1,1)] [[''A'', ''B'']]
              [((0, 0), (1, 0)), ((1, 0), (0, 0)), ((0, 0), (0, 1)), ((0, 1), (0, 0)),
               ((0, 1), (1, 1)), ((1, 1), (0, 1)), ((1, 0), (1, 1)), ((1, 1), (1, 0))]
              (Some [1 \<mapsto> [[''A'', ''B'']]])
            = Inr (2, 2, 1, Float_times (True_div 1 1) 100)"
    by code_simp
  from main satisfied_pairs_card [of positive_pairs ?sat] s e m show ?thesis by simp
qed


theorem compute_satisfaction_metrics_counts_witness:
  "compute_satisfaction_metrics
      [''A'' \<mapsto> 0, ''B'' \<mapsto> 1, ''C'' \<mapsto> 2, ''D'' \<mapsto> 3] [''A'', ''B'', ''C'', ''D'']
      [(0,0), (0,1), (1,0), (1,1)] [[''A'', ''B''], [''C'', ''B'']]
      [((0, 0), (1, 0)), ((1, 0), (0, 0)), ((0, 0), (0, 1)), ((0, 1), (0, 0)),
       ((0, 1), (1, 1)), ((1, 1), (0, 1)), ((1, 0), (1, 1)), ((1, 1), (1, 0))]
      (Some [1 \<mapsto> [[''A'', ''B''], [''C'', ''B''], [''A'', ''D'']]])
    = Inr (2, 3, 1, Float_times (True_div 1 3) 100)
   \<and> card (\<Union> (set ` {p \<in> set [[''A'', ''B''], [''C'', ''B'']].
         pair_satisfied [''A'' \<mapsto> 0, ''B'' \<mapsto> 1, ''C'' \<mapsto> 2, ''D'' \<mapsto> 3]
           [(0,0), (0,1), (1,0), (1,1)]
           [((0, 0), (1, 0)), ((1, 0), (0, 0)), ((0, 0), (0, 1)), ((0, 1), (0, 0)),
            ((0, 1), (1, 1)), ((1, 1), (0, 1)), ((1, 0), (1, 1)), ((1, 1), (1, 0))] p})) = 2
   \<and> length (filter
         (pair_satisfied [''A'' \<mapsto> 0, ''B'' \<mapsto> 1, ''C'' \<mapsto> 2, ''D'' \<mapsto> 3]
           [(0,0), (0,1), (1,0), (1,1)]
           [((0, 0), (1, 0)), ((1, 0), (0, 0)), ((0, 0), (0, 1)), ((0, 1), (0, 0)),
            ((0, 1), (1, 1)), ((1, 1), (0, 1)), ((1, 0), (1, 1)), ((1, 1), (1, 0))])
         [[''A'', ''B''], [''C'', ''B'']]) = 1"
proof -
  let ?a = "[''A'' \<mapsto> 0, ''B'' \<mapsto> 1, ''C'' \<mapsto> 2, ''D'' \<mapsto> (3::int)]"
  let ?seats = "[(0,0), (0,1), (1,0), (1,1)] :: seat list"
  let ?edges = "[((0, 0), (1, 0)), ((1, 0), (0, 0)), ((0, 0), (0, 1)), ((0, 1), (0, 0)),
       ((0, 1), (1, 1)), ((1, 1), (0, 1)), ((1, 0), (1, 1)), ((1, 1), (1, 0))] :: edge list"
  let ?pairs = "[[''A'', ''B''], [''C'', ''B'']]"
  let ?ranks = "Some [1 \<mapsto> [[''A'', ''B''], [''C'', ''B''], [''A'', ''D'']]]
                  :: (int \<rightharpoonup> string list list) option"
  have h1: "\<forall>p \<in> set ?pairs. length p = 2" by simp
  have h2: "\<forall>by_rank ps. ?ranks = Some by_rank \<and> by_rank 1 = Some ps
           \<longrightarrow> (\<forall>p \<in> set ps. length p = 2)"
    by auto
  have run: "compute_satisfaction_metrics ?a [''A'', ''B'', ''C'', ''D''] ?seats ?pairs ?edges ?ranks
    = Inr (2, 3, 1, Float_times (True_div 1 3) 100)"
    by code_simp
  from compute_satisfaction_metrics_counts [OF h1 h2, of ?a "[''A'', ''B'', ''C'', ''D'']" ?seats ?edges]
  have "compute_satisfaction_metrics ?a [''A'', ''B'', ''C'', ''D''] ?seats ?pairs ?edges ?ranks
    = Inr (card (\<Union> (set ` {p \<in> set ?pairs. pair_satisfied ?a ?seats ?edges p})),
           card (\<Union> (set ` set ?pairs)),
           length (filter (pair_satisfied ?a ?seats ?edges) ?pairs),
           (case ?ranks of
                 None \<Rightarrow> Float_zero
               | Some by_rank \<Rightarrow>
                  (case by_rank 1 of
                     None \<Rightarrow> Float_zero
                   | Some ps \<Rightarrow>
                       if ps = [] then Float_zero
                       else Float_times
                              (True_div (length (filter (pair_satisfied ?a ?seats ?edges) ps))
                                 (length ps)) 100)))"
    by (rule conjunct1)
  with run have "card (\<Union> (set ` {p \<in> set ?pairs. pair_satisfied ?a ?seats ?edges p})) = 2"
    and "length (filter (pair_satisfied ?a ?seats ?edges) ?pairs) = 1"
    by simp_all
  with run show ?thesis by blast
qed

section \<open>Irrelevant pair-weight entries\<close>

lemma weighted_pairs_loop_acc:
  "py_for zs
       (\<lambda>(p, w) acc.
          py_bind (py_index p 0) (\<lambda>a.
          py_bind (py_index p 1) (\<lambda>b. Inr (acc @ [(a, b, w)]))))
       acc
   = py_bind (py_for zs
       (\<lambda>(p, w) acc.
          py_bind (py_index p 0) (\<lambda>a.
          py_bind (py_index p 1) (\<lambda>b. Inr (acc @ [(a, b, w)]))))
       []) (\<lambda>r. Inr (acc @ r))"
proof (induction zs arbitrary: acc)
  case Nil
  then show ?case by simp
next
  case (Cons z zs)
  obtain p w where z: "z = (p, w)" by (cases z)
  show ?case
  proof (cases "py_index p 0")
    case Inl
    then show ?thesis by (simp add: z)
  next
    case a: (Inr a)
    show ?thesis
    proof (cases "py_index p 1")
      case Inl
      then show ?thesis by (simp add: z a)
    next
      case b: (Inr b)
      show ?thesis
        unfolding z py_for.simps prod.case a b py_bind_Inr
        by (subst Cons.IH, subst (2) Cons.IH)
           (simp add: py_bind_def split: sum.splits)
    qed
  qed
qed

lemma weighted_pairs_append:
  "weighted_pairs (xs @ ys) =
     py_bind (weighted_pairs xs) (\<lambda>a. py_bind (weighted_pairs ys) (\<lambda>b. Inr (a @ b)))"
proof -
  let ?body = "\<lambda>(p, w) acc.
          py_bind (py_index p 0) (\<lambda>a.
          py_bind (py_index p 1) (\<lambda>b. Inr (acc @ [(a, b, w :: real)])))"
  let ?fx = "filter (\<lambda>(p, w). \<not> negligible w) xs"
  let ?fy = "filter (\<lambda>(p, w). \<not> negligible w) ys"
  have "py_for (?fx @ ?fy) ?body [] = py_bind (py_for ?fx ?body []) (py_for ?fy ?body)"
    by (rule py_for_app)
  also have "\<dots> = py_bind (py_for ?fx ?body [])
                      (\<lambda>a. py_bind (py_for ?fy ?body []) (\<lambda>r. Inr (a @ r)))"
  proof (cases "py_for ?fx ?body []")
    case (Inl e)
    then show ?thesis by simp
  next
    case (Inr a)
    then show ?thesis by (simp add: weighted_pairs_loop_acc [of ?fy a])
  qed
  finally show ?thesis by (simp add: weighted_pairs_def)
qed

lemma dom_name_to_idx_fold:
  "dom (fold (\<lambda>(i, p) m. m(p \<mapsto> int i)) xs m) = dom m \<union> snd ` set xs"
  by (induction xs arbitrary: m) auto

lemma dom_name_to_idx: "dom (name_to_idx people) = set people"
proof -
  have "snd ` set (enumerate 0 people) = set people"
    by (metis enumerate_eq_zip map_snd_zip length_upt diff_zero set_map add_0)
  then show ?thesis
    by (simp add: name_to_idx_def dom_name_to_idx_fold)
qed

lemma weighted_idx_pairs_acc:
  "fold (\<lambda>(a, b, w) acc.
             if a \<in> dom n2i \<and> b \<in> dom n2i
             then (let ia = the (n2i a); ib = the (n2i b) in
                   if ia = ib then acc
                   else if ia > ib then acc @ [(ib, ia, w)]
                   else acc @ [(ia, ib, w)])
             else acc) pairs acc
   = acc @ weighted_idx_pairs n2i pairs"
proof (induction pairs arbitrary: acc rule: rev_induct)
  case Nil
  then show ?case by (simp add: weighted_idx_pairs_def)
next
  case (snoc x xs)
  obtain a b w where x: "x = (a, b, w)" by (cases x)
  show ?case
    by (simp add: x weighted_idx_pairs_def Let_def snoc.IH [of acc])
qed


lemma weighted_idx_pairs_append:
  "weighted_idx_pairs n2i (xs @ ys) = weighted_idx_pairs n2i xs @ weighted_idx_pairs n2i ys"
proof -
  have "weighted_idx_pairs n2i (xs @ ys)
        = fold (\<lambda>(a, b, w) acc.
             if a \<in> dom n2i \<and> b \<in> dom n2i
             then (let ia = the (n2i a); ib = the (n2i b) in
                   if ia = ib then acc
                   else if ia > ib then acc @ [(ib, ia, w)]
                   else acc @ [(ia, ib, w)])
             else acc) ys (weighted_idx_pairs n2i xs)"
    by (simp add: weighted_idx_pairs_def)
  then show ?thesis by (simp only: weighted_idx_pairs_acc)
qed

lemma weighted_idx_pairs_skips:
  assumes "\<forall>(a, b, w) \<in> set pairs. \<not> (a \<in> dom n2i \<and> b \<in> dom n2i) \<or> a = b"
  shows "weighted_idx_pairs n2i pairs = []"
  using assms
proof (induction pairs)
  case Nil
  then show ?case by (simp add: weighted_idx_pairs_def)
next
  case (Cons x xs)
  obtain a b w where x: "x = (a, b, w)" by (cases x)
  from Cons.prems have one: "\<not> (a \<in> dom n2i \<and> b \<in> dom n2i) \<or> a = b" by (simp add: x)
  have "weighted_idx_pairs n2i [x] = []"
    using one by (auto simp: x weighted_idx_pairs_def Let_def)
  moreover from Cons have "weighted_idx_pairs n2i xs = []" by simp
  ultimately show ?case
    using weighted_idx_pairs_append [of n2i "[x]" xs] by simp
qed

lemma weighted_pairs_single:
  "weighted_pairs [(p, w)] =
     (if negligible w then Inr []
      else py_bind (py_index p 0) (\<lambda>a. py_bind (py_index p 1) (\<lambda>b. Inr [(a, b, w)])))"
  by (simp add: weighted_pairs_def py_bind_def split: sum.splits)

lemma weighted_pairs_irrelevant:
  assumes "\<forall>(p, w) \<in> set extra.
             negligible w \<or> (2 \<le> length p \<and> \<not> (p ! 0 \<in> set people \<and> p ! 1 \<in> set people))"
  shows "\<exists>pairs. weighted_pairs extra = Inr pairs
           \<and> weighted_idx_pairs (name_to_idx people) pairs = []"
  using assms
proof (induction extra)
  case Nil
  then show ?case by (simp add: weighted_pairs_def weighted_idx_pairs_def)
next
  case (Cons x xs)
  obtain p w where x: "x = (p, w)" by (cases x)
  from Cons obtain rest where rest: "weighted_pairs xs = Inr rest"
    and rest_idx: "weighted_idx_pairs (name_to_idx people) rest = []"
    by auto
  from Cons.prems have one:
    "negligible w \<or> (2 \<le> length p \<and> \<not> (p ! 0 \<in> set people \<and> p ! 1 \<in> set people))"
    by (simp add: x)
  have "\<exists>first. weighted_pairs [x] = Inr first
          \<and> weighted_idx_pairs (name_to_idx people) first = []"
  proof (cases "negligible w")
    case True
    then show ?thesis by (simp add: x weighted_pairs_single weighted_idx_pairs_def)
  next
    case False
    with one have len: "2 \<le> length p"
      and out: "\<not> (p ! 0 \<in> set people \<and> p ! 1 \<in> set people)" by simp_all
    from len have "py_index p 0 = Inr (p ! 0)" "py_index p 1 = Inr (p ! 1)"
      by (auto simp: py_index_def)
    with False have "weighted_pairs [x] = Inr [(p ! 0, p ! 1, w)]"
      by (simp add: x weighted_pairs_single)
    moreover have "weighted_idx_pairs (name_to_idx people) [(p ! 0, p ! 1, w)] = []"
      by (rule weighted_idx_pairs_skips) (use out in \<open>simp add: dom_name_to_idx\<close>)
    ultimately show ?thesis by simp
  qed
  then obtain first where first: "weighted_pairs [x] = Inr first"
    and first_idx: "weighted_idx_pairs (name_to_idx people) first = []"
    by auto
  have "weighted_pairs (x # xs) = Inr (first @ rest)"
    using weighted_pairs_append [of "[x]" xs] by (simp add: first rest)
  then show ?case
    by (simp add: weighted_idx_pairs_append first_idx rest_idx)
qed

text \<open>
  Entries of negligible weight, and entries whose first two names are not both in the
  people list, change nothing: the run with them, wherever they stand among the items,
  is the run without them.
\<close>

lemma irrelevant_entries_ignored:
  assumes "\<forall>(p, w) \<in> set extra.
             negligible w \<or> (2 \<le> length p \<and> \<not> (p ! 0 \<in> set people \<and> p ! 1 \<in> set people))"
  shows "solve_top_n_assignments solver people seats (before @ extra @ after) oriented_edges top_n
       = solve_top_n_assignments solver people seats (before @ after) oriented_edges top_n"
proof -
  from weighted_pairs_irrelevant [OF assms]
  obtain mid where mid: "weighted_pairs extra = Inr mid"
    and mid_idx: "weighted_idx_pairs (name_to_idx people) mid = []"
    by auto
  show ?thesis
  proof (cases "weighted_pairs before")
    case (Inl e)
    then show ?thesis
      by (simp add: solve_top_n_assignments_def weighted_pairs_append [of before])
  next
    case b: (Inr b)
    show ?thesis
    proof (cases "weighted_pairs after")
      case (Inl e)
      with b mid show ?thesis
        by (simp add: solve_top_n_assignments_def weighted_pairs_append [of before]
              weighted_pairs_append [of extra])
    next
      case a: (Inr a)
      have w1: "weighted_pairs (before @ extra @ after) = Inr (b @ mid @ a)"
        by (simp add: weighted_pairs_append [of before] weighted_pairs_append [of extra] a b mid)
      have w2: "weighted_pairs (before @ after) = Inr (b @ a)"
        by (simp add: weighted_pairs_append [of before] a b)
      have "weighted_idx_pairs (name_to_idx people) (b @ mid @ a)
              = weighted_idx_pairs (name_to_idx people) (b @ a)"
        by (simp add: weighted_idx_pairs_append mid_idx)
      then show ?thesis
        by (simp add: solve_top_n_assignments_def w1 w2 Let_def)
    qed
  qed
qed

text \<open>
  C10. An entry whose two names coincide is not ignored. The key built from two equal
  names is a \<open>frozenset\<close> of one name; when its weight is above the threshold, building
  \<open>weighted_pairs\<close> reads \<open>list(p)[1]\<close> of it and raises IndexError, before the loop
  whose test \<open>ia == ib\<close> would have skipped the pair. With people A and B on two seats
  the run with the entry for A and A of weight 5 raises IndexError, and the run without it
  does not.
\<close>

theorem self_pair_entry_raises_index_error:
  "fst (solve_top_n_assignments solver [''A'', ''B''] [(0, 0), (0, 1)] [([''A''], 5)] [] 1)
     = Inl IndexError
   \<and> fst (solve_top_n_assignments solver [''A'', ''B''] [(0, 0), (0, 1)] [] [] 1)
     \<noteq> Inl IndexError
   \<and> weighted_pairs [([''A''], 5)] = Inl IndexError
   \<and> weighted_pairs [] = Inr []"
proof -
  have w: "weighted_pairs [([''A''], 5)] = Inl IndexError"
    by (simp add: weighted_pairs_single negligible_def double_1e_9_def py_index_def)
  have e: "weighted_pairs [] = Inr []"
    by (simp add: weighted_pairs_def)
  have 1: "fst (solve_top_n_assignments solver [''A'', ''B''] [(0, 0), (0, 1)] [([''A''], 5)] [] 1)
     = Inl IndexError"
    by (simp add: solve_top_n_assignments_def w)
  have 2: "fst (solve_top_n_assignments solver [''A'', ''B''] [(0, 0), (0, 1)] [] [] 1)
     \<noteq> Inl IndexError"
  proof
    assume i: "fst (solve_top_n_assignments solver [''A'', ''B''] [(0, 0), (0, 1)] [] [] 1)
     = Inl IndexError"
    obtain outcome final_model calls where
      l: "solve_loop solver [''A'', ''B''] (int (length [''A'', ''B'']))
            (int (length [(0, 0), (0, 1) :: seat])) (py_range 1)
            (build_model (int (length [''A'', ''B''])) (int (length [(0, 0), (0, 1) :: seat]))
               (objective_terms (seat_to_idx [(0, 0), (0, 1)])
                  (weighted_idx_pairs (name_to_idx [''A'', ''B'']) []) [])) [] 0
          = (outcome, final_model, calls)"
      by (rule prod_cases3)
    with i have "outcome = Inl IndexError"
      by (simp add: solve_top_n_assignments_def e Let_def)
    with l solve_loop_error show False by blast
  qed
  from 1 2 w e show ?thesis by simp
qed

end
